theory Spec2Isabelle
  imports Complex_Main "HOL-Library.Log_Nat"
begin

section \<open>Session store (auth/session_handler.py)\<close>

text \<open>
  A \<open>datetime\<close> has microsecond resolution: a point in time is the integer number of
  microseconds since some epoch, and the difference of two of them is a \<open>timedelta\<close>,
  again a whole number of microseconds.
\<close>

type_synonym datetime = int

text \<open>
  \<open>timedelta.total_seconds()\<close> is the true division of that number of microseconds by
  \<open>10^6\<close>, a Python \<open>float\<close>: the binary64 number nearest to the exact quotient, ties
  going to the even significand. A float is represented by the rational it denotes.
  \<open>binary_exponent x\<close> is the \<open>e\<close> with \<open>2^e \<le> x < 2^(e+1)\<close>, and a binary64 number of
  that magnitude is a multiple of \<open>2^(e-52)\<close>. A \<open>timedelta\<close> lies between \<open>10^-6\<close> and
  \<open>10^14\<close> seconds in magnitude when it is not zero, far inside the normal range of
  binary64, so neither overflow nor gradual underflow occurs and the exponent needs no
  clamping. Python compares a float with an \<open>int\<close> by their exact values.
\<close>

definition round_half_even :: "rat \<Rightarrow> int" where
  "round_half_even q =
     (let f = \<lfloor>q\<rfloor>; r = q - of_int f in
      if r < 1 / 2 then f else if 1 / 2 < r then f + 1 else if even f then f else f + 1)"

definition binary_exponent :: "rat \<Rightarrow> int" where
  "binary_exponent x =
     (case quotient_of x of
        (p, q) \<Rightarrow> (let e0 = bitlen p - bitlen q in if 2 powi e0 \<le> x then e0 else e0 - 1))"

definition py_float :: "rat \<Rightarrow> rat" where
  "py_float x =
     (if x = 0 then 0
      else (let u = 2 powi (binary_exponent \<bar>x\<bar> - 52) in
            sgn x * of_int (round_half_even (\<bar>x\<bar> / u)) * u))"

definition total_seconds :: "int \<Rightarrow> rat" where
  "total_seconds d = py_float (of_int d / 1000000)"

text \<open>
  \<open>SessionData\<close>. The three dictionaries of a session (\<open>custom_agents\<close>,
  \<open>discussion_data\<close>, \<open>user_preferences\<close>) are never read by the operations below
  and are kept together as one value of an arbitrary type.
\<close>

record 'a session_data =
  session_id :: string
  user_id :: string
  created_at :: datetime
  last_activity :: datetime
  attached :: 'a

text \<open>
  \<open>SessionHandler\<close>: the timeout in seconds and the dictionary of active sessions.
  Every method body runs under \<open>session_lock\<close>, so each is one atomic step on the
  handler; the clock reading \<open>datetime.now()\<close> is an argument.
\<close>

record 'a session_handler =
  session_timeout :: int
  active_sessions :: "string \<rightharpoonup> 'a session_data"

definition create_session ::
  "string \<Rightarrow> datetime \<Rightarrow> string \<Rightarrow> 'a \<Rightarrow> 'a session_handler \<Rightarrow> string \<times> 'a session_handler" where
  "create_session new_id now uid prefs h =
     (new_id,
      h\<lparr>active_sessions := (active_sessions h)(new_id \<mapsto>
          \<lparr>session_id = new_id, user_id = uid, created_at = now,
           last_activity = now, attached = prefs\<rparr>)\<rparr>)"

definition validate_session ::
  "datetime \<Rightarrow> string \<Rightarrow> 'a session_handler \<Rightarrow> (bool \<times> 'a session_data option) \<times> 'a session_handler" where
  "validate_session now sid h =
     (case active_sessions h sid of
        None \<Rightarrow> ((False, None), h)
      | Some session \<Rightarrow>
          (let time_since_activity = total_seconds (now - last_activity session) in
           if time_since_activity > of_int (session_timeout h)
           then ((False, None), h\<lparr>active_sessions := (active_sessions h)(sid := None)\<rparr>)
           else (let session' = session\<lparr>last_activity := now\<rparr> in
                 ((True, Some session'),
                  h\<lparr>active_sessions := (active_sessions h)(sid \<mapsto> session')\<rparr>))))"

definition update_session_activity ::
  "datetime \<Rightarrow> string \<Rightarrow> 'a session_handler \<Rightarrow> bool \<times> 'a session_handler" where
  "update_session_activity now sid h =
     (case active_sessions h sid of
        Some session \<Rightarrow>
          (True, h\<lparr>active_sessions := (active_sessions h)(sid \<mapsto> session\<lparr>last_activity := now\<rparr>)\<rparr>)
      | None \<Rightarrow> (False, h))"

definition get_session_data :: "string \<Rightarrow> 'a session_handler \<Rightarrow> 'a session_data option" where
  "get_session_data sid h = active_sessions h sid"

definition destroy_session :: "string \<Rightarrow> 'a session_handler \<Rightarrow> bool \<times> 'a session_handler" where
  "destroy_session sid h =
     (case active_sessions h sid of
        Some session \<Rightarrow> (True, h\<lparr>active_sessions := (active_sessions h)(sid := None)\<rparr>)
      | None \<Rightarrow> (False, h))"

text \<open>The background sweep \<open>_cleanup_expired_sessions\<close>: one pass under the lock.\<close>

definition cleanup_expired_sessions :: "datetime \<Rightarrow> 'a session_handler \<Rightarrow> 'a session_handler" where
  "cleanup_expired_sessions now h =
     h\<lparr>active_sessions := (\<lambda>sid.
        case active_sessions h sid of
          None \<Rightarrow> None
        | Some session \<Rightarrow>
            if total_seconds (now - last_activity session) > of_int (session_timeout h)
            then None else Some session)\<rparr>"

text \<open>
  The handler used in the worked cases: a timeout of one hour and one session, last
  active at time 0.
\<close>

definition demo_session :: "unit session_data" where
  "demo_session = \<lparr>session_id = ''s1'', user_id = ''u1'', created_at = 0,
                    last_activity = 0, attached = ()\<rparr>"

definition demo_handler :: "unit session_handler" where
  "demo_handler = \<lparr>session_timeout = 3600, active_sessions = [''s1'' \<mapsto> demo_session]\<rparr>"

section \<open>Discussion engine (discussion/discussion_engine.py, agents/*.py)\<close>

subsection \<open>Text\<close>

text \<open>
  A Python \<open>str\<close> is a sequence of Unicode code points, and \<open>len\<close> and slicing count
  code points; it is modelled as the list of their numbers. \<open>ascii\<close> reads an ASCII
  literal. The literals of the source that are written in Chinese are given by their code
  points further down, each with a gloss.
\<close>

type_synonym str = "nat list"

definition ascii :: "string \<Rightarrow> str" where
  "ascii s = map of_char s"

definition newline :: str where
  "newline = [10]"

text \<open>\<open>sep.join(xs)\<close>.\<close>

fun join :: "str \<Rightarrow> str list \<Rightarrow> str" where
  "join sep [] = []"
| "join sep [x] = x"
| "join sep (x # y # ys) = x @ sep @ join sep (y # ys)"

text \<open>\<open>str(n)\<close> for an integer: decimal digits, with a minus sign below zero.\<close>

fun str_nat :: "nat \<Rightarrow> str" where
  "str_nat n = (if n < 10 then [48 + n] else str_nat (n div 10) @ [48 + n mod 10])"

declare str_nat.simps [simp del]

definition str_int :: "int \<Rightarrow> str" where
  "str_int i = (if i < 0 then 45 # str_nat (nat (- i)) else str_nat (nat i))"

text \<open>
  \<open>s.split()\<close>: the maximal runs of characters that are not white space, where white
  space is what \<open>str.isspace\<close> accepts.
\<close>

definition isspace :: "nat \<Rightarrow> bool" where
  "isspace c =
     (c \<in> set [9, 10, 11, 12, 13, 28, 29, 30, 31, 32, 133, 160, 5760, 8232, 8233, 8239, 8287, 12288]
      \<or> (8192 \<le> c \<and> c \<le> 8202))"

fun split_words :: "str \<Rightarrow> str \<Rightarrow> str list" where
  "split_words w [] = (if w = [] then [] else [w])"
| "split_words w (c # cs) =
     (if isspace c then (if w = [] then split_words [] cs else w # split_words [] cs)
      else split_words (w @ [c]) cs)"

definition str_split :: "str \<Rightarrow> str list" where
  "str_split s = split_words [] s"

subsection \<open>Fixed wording\<close>

definition indent :: str where
  "indent = ascii ''  ''"

definition colon_space :: str where
  "colon_space = ascii '': ''"

definition ellipsis :: str where
  "ellipsis = ascii ''...''"

text \<open>Opens a round label; the word for "number" (ordinal prefix).\<close>

definition round_label_open :: str where
  "round_label_open =
    [31532]"

text \<open>Closes a round label: "round of discussion" and a colon.\<close>

definition round_label_close :: str where
  "round_label_close =
    [36718, 35752, 35770, 58]"

text \<open>The label of a broadcast round: "broadcast question round:".\<close>

definition broadcast_round_label :: str where
  "broadcast_round_label =
    [24191, 25773, 25552, 38382, 36718, 27425, 58]"

text \<open>The first line of the digest: "summary of the discussion so far:" and a newline.\<close>

definition summary_heading :: str where
  "summary_heading =
    [20043, 21069, 30340, 35752, 35770, 25688, 35201, 58, 10]"

text \<open>The sentinel: "this is the first round of discussion, there is no history yet".\<close>

definition first_round_notice :: str where
  "first_round_notice =
    [36825, 26159, 31532, 19968, 36718, 35752, 35770, 65292, 26242, 26080, 21382, 21490,
     35760, 24405]"

text \<open>Opens the request to speak: "please".\<close>

definition speak_request_open :: str where
  "speak_request_open =
    [35831]"

text \<open>Closes the request to speak: "expert, take the floor".\<close>

definition speak_request_close :: str where
  "speak_request_close =
    [19987, 23478, 21457, 35328]"

text \<open>The default of a missing analysis: "no analysis result".\<close>

definition no_analysis_result :: str where
  "no_analysis_result =
    [26080, 20998, 26512, 32467, 26524]"

text \<open>Opens the directive of a round: "as".\<close>

definition analysis_prompt_open :: str where
  "analysis_prompt_open =
    [20316, 20026]"

text \<open>Closes the directive of a round: "expert, analyse in depth on the basis of all the discussion so far..."\<close>

definition analysis_prompt_close :: str where
  "analysis_prompt_close =
    [19987, 23478, 65292, 35831, 22522, 20110, 20043, 21069, 25152, 26377, 35752, 35770,
     20869, 23481, 36827, 34892, 28145, 24230, 20998, 26512, 46, 46, 46]"

text \<open>Prefix in the shared history: "reply to the broadcast question: ".\<close>

definition broadcast_reply_prefix :: str where
  "broadcast_reply_prefix =
    [23545, 24191, 25773, 38382, 39064, 30340, 22238, 24212, 58, 32]"

text \<open>The default error of a failed reply: "unknown error".\<close>

definition unknown_error :: str where
  "unknown_error =
    [26410, 30693, 38169, 35823]"

text \<open>The first line of the backup summary: "summary of the multi-specialty discussion:" and a newline.\<close>

definition backup_summary_heading :: str where
  "backup_summary_heading =
    [22810, 19987, 31185, 35752, 35770, 27719, 24635, 65306, 10]"

text \<open>The error text of an interrupted result: "the discussion was interrupted by the user".\<close>

definition interrupted_message :: str where
  "interrupted_message =
    [35752, 35770, 34987, 29992, 25143, 20013, 26029]"

text \<open>Part 1 of the analysis request: "on the basis of the case below and of the discussion history, give a professional analysis from the point of view of"\<close>

definition analysis_message_1 :: str where
  "analysis_message_1 =
    [22522, 20110, 20197, 19979, 30149, 20363, 20449, 24687, 21644, 35752, 35770, 21382,
     21490, 65292, 35831, 20174]"

text \<open>Part 2 of the analysis request: "...:", then the heading "[case record]"\<close>

definition analysis_message_2 :: str where
  "analysis_message_2 =
    [35282, 24230, 25552, 20379, 19987, 19994, 20998, 26512, 65306, 10, 10, 32, 32, 32,
     32, 12304, 30149, 21382, 20449, 24687, 12305, 10, 32, 32, 32, 32]"

text \<open>Part 3 of the analysis request: the heading "[discussion history]"\<close>

definition analysis_message_3 :: str where
  "analysis_message_3 =
    [10, 10, 32, 32, 32, 32, 12304, 35752, 35770, 21382, 21490, 12305, 10, 32, 32, 32,
     32]"

text \<open>Part 4 of the analysis request: the heading "[requirements]" and the four numbered points of the request (answer within 500 characters)\<close>

definition analysis_message_4 :: str where
  "analysis_message_4 =
    [10, 10, 32, 32, 32, 32, 12304, 35201, 27714, 12305, 10, 32, 32, 32, 32, 35831,
     29992, 53, 48, 48, 23383, 20197, 20869, 31616, 27905, 22238, 31572, 65292, 21487,
     20197, 21253, 21547, 65306, 10, 32, 32, 32, 32, 49, 46, 32, 28041, 21450, 26426,
     21046, 21028, 26029, 21450, 29702, 30001, 10, 32, 32, 32, 32, 50, 46, 32, 35786,
     26029, 21644, 37492, 21035, 35786, 26029, 24314, 35758, 21450, 29702, 30001, 32,
     32, 10, 32, 32, 32, 32, 51, 46, 32, 27835, 30103, 24314, 35758, 21450, 29702,
     30001, 10, 32, 32, 32, 32, 52, 46, 32, 26816, 26597, 24314, 35758, 21450, 29702,
     30001, 10, 32, 32, 32, 32]"

text \<open>Part 5 of the analysis request: "please keep to the field of"\<close>

definition analysis_message_5 :: str where
  "analysis_message_5 =
    [10, 32, 32, 32, 32, 35831, 19987, 27880, 20110]"

text \<open>Part 6 of the analysis request: "... and summarise the points above, without a list, as a concise professional opinion."\<close>

definition analysis_message_6 :: str where
  "analysis_message_6 =
    [19987, 19994, 39046, 22495, 65292, 26681, 25454, 19978, 36848, 35201, 28857, 36827,
     34892, 24635, 32467, 22238, 31572, 65292, 19981, 29992, 20998, 28857, 65292, 25552,
     20379, 31934, 28860, 30340, 19987, 19994, 27719, 24635, 24847, 35265, 12290]"

text \<open>Shown for an empty history: "no discussion history yet".\<close>

definition no_discussion_history :: str where
  "no_discussion_history =
    [26242, 26080, 35752, 35770, 21382, 21490]"

text \<open>Shown when nothing was formatted: "no related discussion history yet".\<close>

definition no_related_discussion_history :: str where
  "no_related_discussion_history =
    [26242, 26080, 30456, 20851, 35752, 35770, 21382, 21490]"

text \<open>Marks a shortened analysis: "...[content condensed]".\<close>

definition concise_marker :: str where
  "concise_marker =
    [46, 46, 46, 91, 20869, 23481, 24050, 31934, 31616, 93]"

text \<open>Marks a shortened answer: "...[answer condensed]".\<close>

definition answer_concise_marker :: str where
  "answer_concise_marker =
    [46, 46, 46, 91, 22238, 31572, 24050, 31934, 31616, 93]"

text \<open>Part 1 of the decision request: "as the clinical decision expert, form the final clinical decision from the multi-specialty discussion below:", then the heading "[case summary]"\<close>

definition decision_message_1 :: str where
  "decision_message_1 =
    [20316, 20026, 20020, 24202, 20915, 31574, 19987, 23478, 65292, 35831, 22522, 20110,
     20197, 19979, 22810, 19987, 31185, 35752, 35770, 32467, 26524, 65292, 24418, 25104,
     26368, 32456, 20020, 24202, 20915, 31574, 65306, 10, 10, 12304, 30149, 21382,
     25688, 35201, 12305, 10]"

text \<open>Part 2 of the decision request: the heading "[question under discussion]"\<close>

definition decision_message_2 :: str where
  "decision_message_2 =
    [10, 10, 12304, 35752, 35770, 38382, 39064, 12305, 32, 32, 10]"

text \<open>Part 3 of the decision request: the heading "[opinions of the specialties]"\<close>

definition decision_message_3 :: str where
  "decision_message_3 =
    [10, 10, 12304, 21508, 19987, 31185, 24847, 35265, 27719, 24635, 12305, 10]"

text \<open>Part 4 of the decision request: the heading "[decision requirements]", five numbered points and "date of decision:"\<close>

definition decision_message_4 :: str where
  "decision_message_4 =
    [10, 10, 12304, 20915, 31574, 35201, 27714, 12305, 10, 35831, 25552, 20379, 32467,
     26500, 21270, 30340, 26368, 32456, 24314, 35758, 65306, 10, 49, 46, 32, 32508,
     21512, 35786, 26029, 24847, 35265, 65288, 25353, 21487, 33021, 24615, 25490, 24207,
     65292, 38468, 25903, 25345, 35777, 25454, 65289, 10, 50, 46, 32, 25512, 33616,
     30340, 22810, 23398, 31185, 27835, 30103, 26041, 26696, 65288, 20998, 38454, 27573,
     12289, 20998, 19987, 31185, 65289, 10, 51, 46, 32, 24517, 35201, 30340, 36741,
     21161, 26816, 26597, 24314, 35758, 21644, 20248, 20808, 32423, 10, 52, 46, 32,
     21518, 32493, 27835, 30103, 35745, 21010, 21644, 39044, 21518, 35780, 20272, 10,
     53, 46, 32, 20851, 38190, 39118, 38505, 25552, 31034, 21644, 36328, 19987, 31185,
     27880, 24847, 20107, 39033, 10, 10, 20915, 31574, 26085, 26399, 65306]"

text \<open>Part 5 of the decision request: "make sure the advice rests on the analyses of the specialists ... do not sign."\<close>

definition decision_message_5 :: str where
  "decision_message_5 =
    [10, 35831, 30830, 20445, 24314, 35758, 22522, 20110, 21508, 19987, 31185, 19987,
     23478, 30340, 28145, 24230, 20998, 26512, 65292, 24182, 32771, 34385, 24739, 32773,
     30340, 25972, 20307, 24773, 20917, 12290, 19981, 35201, 21253, 21547, 20010, 20154,
     31614, 21517, 12290]"

text \<open>Opens a context update: "the user has provided new".\<close>

definition context_update_1 :: str where
  "context_update_1 =
    [29992, 25143, 25552, 20379, 20102, 26032, 30340]"

text \<open>The description of the type "general": "supplementary information".\<close>

definition general_description :: str where
  "general_description =
    [34917, 20805, 20449, 24687]"

text \<open>A full-width colon.\<close>

definition context_update_2 :: str where
  "context_update_2 =
    [65306]"

text \<open>Closes a context update: a blank line and "please reassess your earlier analysis on the basis of this new information."\<close>

definition context_update_3 :: str where
  "context_update_3 =
    [10, 10, 35831, 22522, 20110, 36825, 20010, 26032, 20449, 24687, 37325, 26032,
     35780, 20272, 24744, 20043, 21069, 30340, 20998, 26512, 12290]"

subsection \<open>Participants (agents/base_agent.py, agents/specialty_agents.py)\<close>

text \<open>
  A chat message is a dictionary with a role and a content. An agent keeps its specialty,
  its system instruction and its message list, which starts as the system instruction
  alone. The \<open>history\<close> archive of an agent is written and never read, and is left out.
\<close>

datatype role = System | User | Assistant

type_synonym message = "role \<times> str"

record agent =
  specialty :: str
  system_instruction :: str
  messages :: "message list"

definition new_agent :: "str \<Rightarrow> str \<Rightarrow> agent" where
  "new_agent spec instruction =
     \<lparr>specialty = spec, system_instruction = instruction, messages = [(System, instruction)]\<rparr>"

text \<open>
  The language model client \<open>AgentHelper.invoke\<close> (with its retries) is outside the
  engine: a call either returns the reply or raises \<open>Exception\<close> with a message.
\<close>

datatype llm_result = Reply str | Failure str

text \<open>
  The exceptions that occur, each standing for its \<open>str(e)\<close> where the source stores
  that text.
\<close>

datatype py_exception =
    KeyError str
  | AttributeError str
  | TypeError str
  | ZeroDivisionError
  | Exception str

text \<open>
  What is sent to the language model. A \<open>Chat\<close> is the message list passed to
  \<open>invoke\<close>. The request of \<open>respond_to_user_question\<close> interpolates the \<open>str()\<close> of a
  list of dictionaries; it is kept by its ingredients: the system instruction, the
  question, the discussion context and the case record.
\<close>

datatype request =
    Chat "message list"
  | User_question str str "message list" str

definition set_shared_history :: "message list \<Rightarrow> agent \<Rightarrow> agent" where
  "set_shared_history shared_messages a =
     (case messages a of
        (System, content) # rest \<Rightarrow> a\<lparr>messages := (System, content) # shared_messages\<rparr>
      | _ \<Rightarrow> a\<lparr>messages := shared_messages\<rparr>)"

definition update_context :: "str \<Rightarrow> agent \<Rightarrow> agent" where
  "update_context new_information a =
     a\<lparr>messages := messages a @
        [(User, context_update_1 @ general_description @ context_update_2
                  @ new_information @ context_update_3)]\<rparr>"

text \<open>
  \<open>chat\<close> appends the user message, sends the whole message list, and appends the reply;
  when the call fails the user message stays and the exception is raised.
\<close>

definition chat :: "llm_result \<Rightarrow> str \<Rightarrow> agent \<Rightarrow> (py_exception + str) \<times> agent \<times> request" where
  "chat outcome message a =
     (let sent = messages a @ [(User, message)] in
      case outcome of
        Reply response \<Rightarrow>
          (Inr response, a\<lparr>messages := sent @ [(Assistant, response)]\<rparr>, Chat sent)
      | Failure e \<Rightarrow> (Inl (Exception e), a\<lparr>messages := sent\<rparr>, Chat sent))"

definition chat_without_history :: "llm_result \<Rightarrow> str \<Rightarrow> agent \<Rightarrow> (py_exception + str) \<times> request" where
  "chat_without_history outcome message a =
     (let sent = [(System, system_instruction a), (User, message)] in
      case outcome of
        Reply response \<Rightarrow> (Inr response, Chat sent)
      | Failure e \<Rightarrow> (Inl (Exception e), Chat sent))"

text \<open>
  \<open>_format_discussion_history_for_prompt\<close> receives the context messages, which have
  neither a \<open>round\<close> nor a \<open>contributions\<close> key: each of the last six yields its label,
  numbered from 1, and nothing else.
\<close>

definition format_discussion_history_for_prompt :: "message list \<Rightarrow> str" where
  "format_discussion_history_for_prompt discussion_history =
     (if discussion_history = [] then no_discussion_history
      else
        (let formatted_history =
               map (\<lambda>i. round_label_open @ str_nat i @ round_label_close)
                 [1 ..< Suc (min 6 (length discussion_history))]
         in if formatted_history \<noteq> [] then join newline formatted_history
            else no_related_discussion_history))"

definition make_response_concise :: "str \<Rightarrow> str" where
  "make_response_concise response =
     (let words = str_split response in
      if length words \<le> 400 then response
      else join (ascii '' '') (take 50 words @ drop (length words - 50) words) @ concise_marker)"

text \<open>
  The dictionary returned by \<open>analyze_clinical_case\<close>: on success the specialty, the
  concise analysis and its length; on failure the error and the specialty. Time stamps
  are left out throughout.
\<close>

datatype analysis =
    Analysis_success str str nat
  | Analysis_failure py_exception str

definition analysis_message :: "str \<Rightarrow> str \<Rightarrow> str \<Rightarrow> str \<Rightarrow> str" where
  "analysis_message spec medical_text history_context prompt_section =
     analysis_message_1 @ spec @ analysis_message_2 @ medical_text @ analysis_message_3
     @ history_context @ analysis_message_4 @ prompt_section @ analysis_message_5 @ spec
     @ analysis_message_6"

definition analyze_clinical_case ::
  "llm_result \<Rightarrow> str \<Rightarrow> message list \<Rightarrow> str \<Rightarrow> agent \<Rightarrow> analysis \<times> agent \<times> request" where
  "analyze_clinical_case outcome medical_text discussion_history specific_prompt a =
     (let a1 = (if discussion_history \<noteq> [] then set_shared_history discussion_history a else a);
          prompt_section = (if specific_prompt \<noteq> [] then newline @ specific_prompt else []);
          history_context = format_discussion_history_for_prompt discussion_history;
          message = analysis_message (specialty a1) medical_text history_context prompt_section
      in case chat outcome message a1 of
           (Inr response, a2, sent) \<Rightarrow>
             (let concise_response = make_response_concise response in
              (Analysis_success (specialty a2) concise_response (length concise_response), a2, sent))
         | (Inl e, a2, sent) \<Rightarrow> (Analysis_failure e (specialty a2), a2, sent))"

text \<open>
  \<open>respond_to_user_question\<close> in concise mode (the second definition of that name in
  the class, which is the one in force): the reply is cut to 200 characters and marked.
\<close>

definition respond_to_user_question ::
  "llm_result \<Rightarrow> str \<Rightarrow> message list \<Rightarrow> str \<Rightarrow> agent \<Rightarrow> (py_exception + str) \<times> request" where
  "respond_to_user_question outcome question discussion_context medical_record a =
     (let sent = User_question (system_instruction a) question discussion_context medical_record in
      case outcome of
        Reply response \<Rightarrow>
          (Inr (if length response > 200 then take 200 response @ answer_concise_marker
                else response), sent)
      | Failure e \<Rightarrow> (Inl (Exception e), sent))"

subsection \<open>The round log\<close>

text \<open>
  An entry of a round is one of three dictionaries: a contribution (agent and the
  analysis dictionary), an error (agent and error text), or a reply to a broadcast
  question (agent and response).
\<close>

datatype entry =
    Contribution str analysis
  | Error_entry str py_exception
  | Response_entry str str

text \<open>
  A round of the log: a scheduled round, with its number and no \<open>type\<close> key, or a
  broadcast round \<open>broadcast_n\<close> of type \<open>broadcast_question\<close> with its question.
  Rounds of type \<open>intervention\<close> are only built by \<open>_record_intervention_response\<close>,
  which nothing calls.
\<close>

datatype round_log =
    Round int "entry list"
  | Broadcast_round nat str "entry list"

fun contributions :: "round_log \<Rightarrow> entry list" where
  "contributions (Round n es) = es"
| "contributions (Broadcast_round n q es) = es"

text \<open>\<open>contribution.get("agent", "")\<close>\<close>

fun entry_agent :: "entry \<Rightarrow> str" where
  "entry_agent (Contribution agent c) = agent"
| "entry_agent (Error_entry agent e) = agent"
| "entry_agent (Response_entry agent r) = agent"

text \<open>\<open>contribution.get("contribution", {}).get("concise_analysis", "")\<close>\<close>

fun entry_analysis :: "entry \<Rightarrow> str" where
  "entry_analysis (Contribution agent (Analysis_success spec concise n)) = concise"
| "entry_analysis e = []"

text \<open>\<open>contribution.get("response", "")\<close>\<close>

fun entry_response :: "entry \<Rightarrow> str" where
  "entry_response (Response_entry agent r) = r"
| "entry_response e = []"

text \<open>
  \<open>_get_current_discussion_context\<close>: the digest of the last three rounds of the log, as
  one system message.
\<close>

definition shorten :: "str \<Rightarrow> str" where
  "shorten t = (if length t > 150 then take 150 t @ ellipsis else t)"

definition contribution_line :: "str \<Rightarrow> str \<Rightarrow> str list" where
  "contribution_line agent body =
     (if body \<noteq> [] then [indent @ agent @ colon_space @ shorten body] else [])"

fun round_lines :: "round_log \<Rightarrow> str list" where
  "round_lines (Round round_num es) =
     (round_label_open @ str_int (round_num + 1) @ round_label_close)
     # concat (map (\<lambda>e. contribution_line (entry_agent e) (entry_analysis e)) es)"
| "round_lines (Broadcast_round n q es) =
     broadcast_round_label
     # concat (map (\<lambda>e. contribution_line (entry_agent e) (entry_response e)) es)"

definition get_current_discussion_context :: "round_log list \<Rightarrow> message list" where
  "get_current_discussion_context rounds =
     (let recent_rounds = drop (length rounds - 3) rounds;
          context_text = concat (map round_lines recent_rounds)
      in if context_text \<noteq> [] then [(System, summary_heading @ join newline context_text)]
         else [(System, first_round_notice)])"

subsection \<open>The engine and its surroundings\<close>

datatype intervention =
    Question_to_agent str str
  | Broadcast_question str
  | Add_information str
  | Skip_round
  | Interrupt

text \<open>
  The five keys that \<open>initialize_discussion\<close> stores together in \<open>medical_context\<close>
  (the start time, like every time stamp, is left out).
\<close>

record case_context =
  medical_record :: str
  question :: str
  selected_agents :: "str list"
  case_user_id :: str

text \<open>
  \<open>ClinicalDiscussionEngine\<close>. \<open>medical_context\<close> is \<open>None\<close> while the dictionary is
  still empty; \<open>additional_info\<close> and \<open>status\<close> are its later keys.
  The dictionary \<open>self.agents\<close> is the list of its keys in insertion order, \<open>agents\<close>,
  and the object stored under each key, \<open>agent_obj\<close>. \<open>shared_discussion_history\<close>
  is \<open>None\<close> while the attribute does not exist (it is created at the end of
  \<open>initialize_discussion\<close>). \<open>user_participation\<close> is that key of
  \<open>discussion_config\<close>. \<open>model_calls\<close> records every call of the language model, with
  the name of the calling agent: it is the observable behaviour towards the model.
\<close>

record engine =
  is_running :: bool
  current_round :: int
  max_rounds :: int
  skip_remaining_agents :: bool
  user_participation :: bool
  discussion_log :: "round_log list"
  user_interventions :: "intervention list"
  medical_context :: "case_context option"
  additional_info :: "str list"
  status :: "str option"
  agents :: "str list"
  agent_obj :: "str \<Rightarrow> agent"
  decision_agent :: "agent option"
  shared_discussion_history :: "message list option"
  model_calls :: "(str \<times> request) list"

text \<open>
  What the engine does not control: \<open>llm n\<close> is the outcome of the call of the language
  model that is preceded by \<open>n\<close> others; \<open>user_choice r a\<close> is what the operator enters
  at the prompt shown after agent \<open>a\<close> has spoken in round \<open>r\<close> (\<open>None\<close> for the return
  key, for an invalid entry and for an input error); \<open>interface\<close> is the interface
  object, \<open>None\<close> for the default one and otherwise its \<open>has_user_input\<close>, asked after
  each round; \<open>current_date\<close> is the date written into the decision request.
\<close>

record env =
  llm :: "nat \<Rightarrow> llm_result"
  user_choice :: "int \<Rightarrow> str \<Rightarrow> intervention option"
  interface :: "(int \<Rightarrow> bool) option"
  current_date :: str

text \<open>\<open>CLIInterface.has_user_input\<close> always answers \<open>False\<close>.\<close>

definition cli_interface :: "(int \<Rightarrow> bool) option" where
  "cli_interface = Some (\<lambda>r. False)"

text \<open>\<open>_add_to_shared_history\<close>; without the attribute it raises \<open>AttributeError\<close>.\<close>

definition add_to_shared_history :: "str \<Rightarrow> str \<Rightarrow> engine \<Rightarrow> engine option" where
  "add_to_shared_history agent_name content s =
     (case shared_discussion_history s of
        None \<Rightarrow> None
      | Some h \<Rightarrow>
          Some (s\<lparr>shared_discussion_history := Some (h @
                  [(User, speak_request_open @ agent_name @ speak_request_close),
                   (Assistant, agent_name @ colon_space @ content)])\<rparr>))"

text \<open>\<open>self.medical_context.get("medical_record", "")\<close>\<close>

definition get_medical_record :: "engine \<Rightarrow> str" where
  "get_medical_record s = (case medical_context s of None \<Rightarrow> [] | Some c \<Rightarrow> medical_record c)"

text \<open>One agent answers a question of the operator; the call is recorded.\<close>

definition ask_agent :: "env \<Rightarrow> str \<Rightarrow> str \<Rightarrow> engine \<Rightarrow> (py_exception + str) \<times> engine" where
  "ask_agent e agent_name q s =
     (case respond_to_user_question (llm e (length (model_calls s))) q
             (get_current_discussion_context (discussion_log s)) (get_medical_record s)
             (agent_obj s agent_name) of
        (response, sent) \<Rightarrow> (response, s\<lparr>model_calls := model_calls s @ [(agent_name, sent)]\<rparr>))"

text \<open>
  The loop of a broadcast question. A failed reply is entered as an error; a reply is
  entered and added to the shared history, and if that raises the loop is left with
  \<open>None\<close>.
\<close>

fun broadcast_replies ::
  "env \<Rightarrow> str \<Rightarrow> str list \<Rightarrow> entry list \<Rightarrow> engine \<Rightarrow> entry list option \<times> engine" where
  "broadcast_replies e q [] es s = (Some es, s)"
| "broadcast_replies e q (agent_name # rest) es s =
     (case ask_agent e agent_name q s of
        (Inr response_text, s1) \<Rightarrow>
          (case add_to_shared_history agent_name
                  (broadcast_reply_prefix @ take 200 response_text @ ellipsis) s1 of
             None \<Rightarrow> (None, s1)
           | Some s2 \<Rightarrow>
               broadcast_replies e q rest (es @ [Response_entry agent_name response_text]) s2)
      | (Inl err, s1) \<Rightarrow> broadcast_replies e q rest (es @ [Error_entry agent_name err]) s1)"

text \<open>Every agent of the dictionary receives \<open>update_context\<close>.\<close>

definition update_all_agents :: "str \<Rightarrow> engine \<Rightarrow> engine" where
  "update_all_agents information s =
     s\<lparr>agent_obj := (\<lambda>n. if n \<in> set (agents s) then update_context information (agent_obj s n)
                          else agent_obj s n)\<rparr>"

definition update_medical_context :: "str \<Rightarrow> engine \<Rightarrow> engine" where
  "update_medical_context new_information s =
     update_all_agents new_information
       (s\<lparr>additional_info := additional_info s @ [new_information]\<rparr>)"

definition record_intervention :: "intervention \<Rightarrow> engine \<Rightarrow> engine" where
  "record_intervention intervention_data s =
     s\<lparr>user_interventions := user_interventions s @ [intervention_data]\<rparr>"

text \<open>
  \<open>_handle_user_intervention\<close>. The result is \<open>True\<close> when the current flow is to be
  broken off. The branches for skipping and interrupting return before the record of
  the intervention is appended; so does an exception, which the method swallows.
\<close>

fun handle_user_intervention :: "env \<Rightarrow> intervention \<Rightarrow> engine \<Rightarrow> bool \<times> engine" where
  "handle_user_intervention e (Question_to_agent target_agent q) s =
     (if target_agent \<noteq> [] \<and> q \<noteq> [] \<and> target_agent \<in> set (agents s)
      then (False, record_intervention (Question_to_agent target_agent q)
                     (snd (ask_agent e target_agent q s)))
      else (False, record_intervention (Question_to_agent target_agent q) s))"
| "handle_user_intervention e (Broadcast_question q) s =
     (if q \<noteq> [] then
        (case broadcast_replies e q (agents s) [] s of
           (None, s1) \<Rightarrow> (False, s1)
         | (Some es, s1) \<Rightarrow>
             (False, record_intervention (Broadcast_question q)
                (s1\<lparr>discussion_log := discussion_log s1
                       @ [Broadcast_round (length (discussion_log s) + 1) q es]\<rparr>)))
      else (False, record_intervention (Broadcast_question q) s))"
| "handle_user_intervention e (Add_information information) s =
     (if information \<noteq> [] then
        (False, record_intervention (Add_information information)
                  (update_all_agents information (update_medical_context information s)))
      else (False, record_intervention (Add_information information) s))"
| "handle_user_intervention e Skip_round s = (True, s\<lparr>skip_remaining_agents := True\<rparr>)"
| "handle_user_intervention e Interrupt s = (True, s\<lparr>is_running := False\<rparr>)"

text \<open>
  \<open>_get_blocking_user_intervention\<close>: the console dialogue itself is not modelled, only
  the intervention it yields.
\<close>

definition get_blocking_user_intervention :: "env \<Rightarrow> int \<Rightarrow> str \<Rightarrow> engine \<Rightarrow> intervention option" where
  "get_blocking_user_intervention e round_num current_agent s =
     (if \<not> user_participation s then None else user_choice e round_num current_agent)"

text \<open>The analysis of one agent, with the call recorded and the agent stored back.\<close>

definition agent_analysis ::
  "env \<Rightarrow> str \<Rightarrow> str \<Rightarrow> message list \<Rightarrow> str \<Rightarrow> engine \<Rightarrow> analysis \<times> engine" where
  "agent_analysis e agent_name medical_text discussion_history specific_prompt s =
     (case analyze_clinical_case (llm e (length (model_calls s))) medical_text
             discussion_history specific_prompt (agent_obj s agent_name) of
        (contribution, a, sent) \<Rightarrow>
          (contribution,
           s\<lparr>agent_obj := (agent_obj s)(agent_name := a),
             model_calls := model_calls s @ [(agent_name, sent)]\<rparr>))"

text \<open>\<open>contribution.get("concise_analysis", ...)\<close> with the default of the round loop.\<close>

fun concise_analysis_or_default :: "analysis \<Rightarrow> str" where
  "concise_analysis_or_default (Analysis_success spec concise n) = concise"
| "concise_analysis_or_default (Analysis_failure err spec) = no_analysis_result"

text \<open>
  The body of the loop of \<open>_execute_discussion_round\<close> for one agent: the \<open>try\<close> block
  and its handler. The result says whether the method returns at once, and gives the
  contributions of the round so far.
\<close>

definition agent_turn ::
  "env \<Rightarrow> int \<Rightarrow> message list \<Rightarrow> str \<Rightarrow> entry list \<Rightarrow> engine \<Rightarrow> bool \<times> entry list \<times> engine" where
  "agent_turn e round_num current_history agent_name es s =
     (let s1 = s\<lparr>agent_obj := (agent_obj s)
                  (agent_name := set_shared_history current_history (agent_obj s agent_name))\<rparr>;
          analysis_prompt = analysis_prompt_open @ agent_name @ analysis_prompt_close
      in case medical_context s1 of
           None \<Rightarrow> (False, es @ [Error_entry agent_name (KeyError (ascii ''medical_record''))], s1)
         | Some c \<Rightarrow>
            (case agent_analysis e agent_name (medical_record c) current_history analysis_prompt s1 of
               (contribution, s2) \<Rightarrow>
                 (let es2 = es @ [Contribution agent_name contribution] in
                  case add_to_shared_history agent_name (concise_analysis_or_default contribution) s2 of
                    None \<Rightarrow>
                      (False,
                       es2 @ [Error_entry agent_name (AttributeError (ascii ''shared_discussion_history''))],
                       s2)
                  | Some s3 \<Rightarrow>
                      (if user_participation s3 then
                         (case get_blocking_user_intervention e round_num agent_name s3 of
                            None \<Rightarrow> (False, es2, s3)
                          | Some user_intervention \<Rightarrow>
                              (case handle_user_intervention e user_intervention s3 of
                                 (stop, s4) \<Rightarrow>
                                   (if stop \<and> user_intervention \<in> {Interrupt, Skip_round}
                                    then (True, es2, s4) else (False, es2, s4))))
                       else (False, es2, s3)))))"

fun speak_in_turn ::
  "env \<Rightarrow> int \<Rightarrow> message list \<Rightarrow> str list \<Rightarrow> entry list \<Rightarrow> engine \<Rightarrow> entry list \<times> engine" where
  "speak_in_turn e round_num current_history [] es s = (es, s)"
| "speak_in_turn e round_num current_history (agent_name # rest) es s =
     (if skip_remaining_agents s then (es, s)
      else (case agent_turn e round_num current_history agent_name es s of
              (True, es', s') \<Rightarrow> (es', s')
            | (False, es', s') \<Rightarrow> speak_in_turn e round_num current_history rest es' s'))"

definition execute_discussion_round :: "env \<Rightarrow> int \<Rightarrow> engine \<Rightarrow> round_log \<times> engine" where
  "execute_discussion_round e round_num s =
     (let s1 = s\<lparr>skip_remaining_agents := False\<rparr>;
          current_history = get_current_discussion_context (discussion_log s1)
      in case speak_in_turn e round_num current_history (agents s1) [] s1 of
           (es, s2) \<Rightarrow> (Round round_num es, s2))"

subsection \<open>Final summary\<close>

text \<open>The dictionary returned by \<open>make_final_decision\<close>.\<close>

datatype decision =
    Decision_success str
  | Decision_failure py_exception

definition build_decision_message :: "str \<Rightarrow> case_context option \<Rightarrow> str list \<Rightarrow> str" where
  "build_decision_message date context analyses =
     decision_message_1 @ (case context of None \<Rightarrow> [] | Some c \<Rightarrow> medical_record c)
     @ decision_message_2 @ (case context of None \<Rightarrow> [] | Some c \<Rightarrow> question c)
     @ decision_message_3 @ join newline analyses
     @ decision_message_4 @ date @ decision_message_5"

text \<open>The line of an entry that holds a successful contribution, for the decision request.\<close>

fun successful_analysis :: "entry \<Rightarrow> str list" where
  "successful_analysis (Contribution agent (Analysis_success spec concise n)) =
     [agent @ colon_space @ concise]"
| "successful_analysis e = []"

text \<open>
  \<open>DecisionMakersAgent.make_final_decision\<close>: one call without history. Its own
  \<open>except\<close> clause turns a failed call into a dictionary with \<open>success\<close> false; the
  method does not raise.
\<close>

definition make_final_decision ::
  "llm_result \<Rightarrow> str \<Rightarrow> round_log list \<Rightarrow> case_context option \<Rightarrow> agent \<Rightarrow> decision \<times> request" where
  "make_final_decision outcome date rounds context a =
     (let all_analyses = concat (map (\<lambda>round_log. concat (map successful_analysis (contributions round_log))) rounds);
          message = build_decision_message date context all_analyses
      in case chat_without_history outcome message a of
           (Inr response, sent) \<Rightarrow> (Decision_success response, sent)
         | (Inl err, sent) \<Rightarrow> (Decision_failure err, sent))"

text \<open>
  The quality scores. No entry has a \<open>diagnosis\<close> key in its contribution, and
  \<open>logic_reports\<close> of a round is never appended to, which is how
  \<open>entry_diagnosis\<close> and \<open>logic_issues\<close> read.
\<close>

record quality_scores =
  diagnosis_completeness :: int
  treatment_rationality :: int
  integration_quality :: int
  discussion_depth :: int
  perspective_diversity :: int
  logic_consistency :: int
  overall_score :: rat

datatype quality =
    Quality_scores quality_scores
  | Quality_error py_exception

fun entry_diagnosis :: "entry \<Rightarrow> str option" where
  "entry_diagnosis e = None"

definition score_diagnosis_completeness :: "engine \<Rightarrow> int" where
  "score_diagnosis_completeness s =
     min 10 (int (length (remdups
       (concat (map (\<lambda>r. List.map_filter entry_diagnosis (contributions r)) (discussion_log s))))))"

definition assess_discussion_quality :: "engine \<Rightarrow> quality" where
  "assess_discussion_quality s =
     (let total_contributions = int (sum_list (map (\<lambda>r. length (contributions r)) (discussion_log s)));
          unique_perspectives = int (length (remdups
            (concat (map (\<lambda>r. map entry_agent (contributions r)) (discussion_log s)))));
          logic_issues = (0 :: int)
      in if agents s = [] then Quality_error ZeroDivisionError
         else
           (let d1 = score_diagnosis_completeness s;
                d2 = 8;
                d3 = 7;
                d4 = min 10 (total_contributions div int (length (agents s)));
                d5 = min 10 (unique_perspectives * 2);
                d6 = max 0 (10 - logic_issues)
            in Quality_scores
                 \<lparr>diagnosis_completeness = d1, treatment_rationality = d2,
                  integration_quality = d3, discussion_depth = d4,
                  perspective_diversity = d5, logic_consistency = d6,
                  overall_score = of_int (d1 + d2 + d3 + d4 + d5 + d6) / 6\<rparr>))"

text \<open>
  The dictionary built by \<open>_generate_final_summary\<close> (its decision, its scores and the
  counts of its metadata; the log, the interventions and the context that it repeats are
  read from the engine), or the one built by \<open>_generate_backup_summary\<close> (summary text,
  the contributions as pairs of agent and analysis, total rounds). Normal rounds have no
  \<open>type\<close> key, so \<open>total_rounds\<close>, which counts the rounds of type \<open>normal\<close>, is 0.
\<close>

datatype final_summary =
    Summary decision quality nat nat nat
  | Backup_summary str "(str \<times> str) list" int

text \<open>
  The entries with a \<open>contribution\<close> key, as agent and
  \<open>contribution.get("concise_analysis", "")\<close>.
\<close>

fun backup_contribution :: "entry \<Rightarrow> (str \<times> str) list" where
  "backup_contribution (Contribution agent c) = [(agent, entry_analysis (Contribution agent c))]"
| "backup_contribution e = []"

definition generate_backup_summary :: "engine \<Rightarrow> final_summary" where
  "generate_backup_summary s =
     (let all_contributions =
            concat (map (\<lambda>round_log. concat (map backup_contribution (contributions round_log)))
                      (discussion_log s));
          summary_text = backup_summary_heading
            @ concat (map (\<lambda>(agent, analysis). agent @ colon_space @ analysis @ newline) all_contributions)
      in Backup_summary summary_text all_contributions (current_round s))"

fun is_broadcast :: "round_log \<Rightarrow> bool" where
  "is_broadcast (Round n es) = False"
| "is_broadcast (Broadcast_round n q es) = True"

text \<open>
  \<open>_generate_final_summary\<close>. Without a decision agent the backup summary is returned.
  Otherwise the decision agent is called; the only exception that can reach the handler
  afterwards is the \<open>KeyError\<close> of \<open>_calculate_duration\<close> on an empty
  \<open>medical_context\<close>, and then the backup summary is returned.
\<close>

definition generate_final_summary :: "env \<Rightarrow> engine \<Rightarrow> final_summary \<times> engine" where
  "generate_final_summary e s =
     (case decision_agent s of
        None \<Rightarrow> (generate_backup_summary s, s)
      | Some d \<Rightarrow>
          (case make_final_decision (llm e (length (model_calls s))) (current_date e)
                  (discussion_log s) (medical_context s) d of
             (final_decision, sent) \<Rightarrow>
               (let s1 = s\<lparr>model_calls := model_calls s @ [(ascii ''DecisionMaker'', sent)]\<rparr>;
                    quality_assessment = assess_discussion_quality s1
                in if medical_context s1 = None then (generate_backup_summary s1, s1)
                   else (Summary final_decision quality_assessment
                           0
                           (length (filter is_broadcast (discussion_log s1)))
                           (length (agents s1)), s1))))"

subsection \<open>Running a discussion\<close>

text \<open>\<open>final_summary.get("discussion_summary", final_summary.get("summary", {}))\<close>\<close>

datatype clinical_summary =
    Discussion_summary decision
  | Summary_text str

fun get_clinical_summary :: "final_summary \<Rightarrow> clinical_summary" where
  "get_clinical_summary (Summary final_decision q n b a) = Discussion_summary final_decision"
| "get_clinical_summary (Backup_summary summary_text cs n) = Summary_text summary_text"

text \<open>\<open>final_summary.get("quality_assessment", {})\<close>, \<open>None\<close> for the empty dictionary.\<close>

fun get_evaluation_metrics :: "final_summary \<Rightarrow> quality option" where
  "get_evaluation_metrics (Summary final_decision q n b a) = Some q"
| "get_evaluation_metrics (Backup_summary summary_text cs n) = None"

text \<open>
  The complete result of \<open>start_discussion\<close>, without identifier and time stamps.
  \<open>logic_reports\<close> is always empty, since no entry has a \<open>logic_report\<close> key, and
  \<open>user_additional_info\<close> is always the empty string, since nothing sets that key;
  both are left out.
\<close>

record complete_result =
  agents_used :: "str list"
  rounds :: int
  medical_record_length :: nat
  question_length :: nat
  rounds_completed :: int
  result_medical_record :: str
  result_question :: str
  result_discussion_log :: "round_log list"
  result_user_interventions :: "intervention list"
  result_clinical_summary :: clinical_summary
  evaluation_metrics :: "quality option"

text \<open>
  What \<open>start_discussion\<close> returns: the complete result, the interrupted result
  (status \<open>interrupted\<close>, rounds completed, a fixed error text) or the error result
  (status \<open>error\<close> and the error).
\<close>

datatype discussion_result =
    Complete complete_result
  | Interrupted_result int
  | Error_result py_exception

text \<open>\<open>result["metadata"].get("status")\<close>: the complete result has no such key.\<close>

fun result_status :: "discussion_result \<Rightarrow> str option" where
  "result_status (Complete r) = None"
| "result_status (Interrupted_result n) = Some (ascii ''interrupted'')"
| "result_status (Error_result err) = Some (ascii ''error'')"

text \<open>\<open>result["metadata"].get("rounds_completed")\<close>: the error result has no such key.\<close>

fun result_rounds_completed :: "discussion_result \<Rightarrow> int option" where
  "result_rounds_completed (Complete r) = Some (rounds_completed r)"
| "result_rounds_completed (Interrupted_result n) = Some n"
| "result_rounds_completed (Error_result err) = None"

definition create_interrupted_result :: "engine \<Rightarrow> discussion_result" where
  "create_interrupted_result s = Interrupted_result (current_round s)"

text \<open>
  \<open>_check_user_intervention\<close>, asked after each round. An exception of the
  interface, as with the default interface \<open>None\<close>, counts as \<open>False\<close>.
\<close>

definition check_user_intervention :: "env \<Rightarrow> engine \<Rightarrow> bool" where
  "check_user_intervention e s =
     (if \<not> user_participation s then False
      else (case interface e of None \<Rightarrow> False | Some has_user_input \<Rightarrow> has_user_input (current_round s)))"

text \<open>
  The loop of \<open>start_discussion\<close> over the round numbers. When the check after a round
  answers \<open>True\<close>, \<open>_handle_user_intervention\<close> is called without its argument, which
  raises \<open>TypeError\<close> and ends the loop.
\<close>

fun discussion_rounds :: "env \<Rightarrow> int list \<Rightarrow> engine \<Rightarrow> py_exception option \<times> engine" where
  "discussion_rounds e [] s = (None, s)"
| "discussion_rounds e (round_num # rest) s =
     (let s1 = s\<lparr>current_round := round_num\<rparr> in
      if \<not> is_running s1 then (None, s1)
      else (case execute_discussion_round e round_num s1 of
              (round_result, s2) \<Rightarrow>
                (let s3 = s2\<lparr>discussion_log := discussion_log s2 @ [round_result]\<rparr> in
                 if check_user_intervention e s3
                 then (Some (TypeError (ascii ''intervention_data'')), s3)
                 else discussion_rounds e rest s3)))"

definition complete_result_of :: "final_summary \<Rightarrow> engine \<Rightarrow> complete_result" where
  "complete_result_of final_summary s =
     \<lparr>agents_used = (case medical_context s of None \<Rightarrow> [] | Some c \<Rightarrow> selected_agents c),
      rounds = current_round s,
      medical_record_length = length (get_medical_record s),
      question_length = length (case medical_context s of None \<Rightarrow> [] | Some c \<Rightarrow> question c),
      rounds_completed = current_round s,
      result_medical_record = get_medical_record s,
      result_question = (case medical_context s of None \<Rightarrow> [] | Some c \<Rightarrow> question c),
      result_discussion_log = discussion_log s,
      result_user_interventions = user_interventions s,
      result_clinical_summary = get_clinical_summary final_summary,
      evaluation_metrics = get_evaluation_metrics final_summary\<rparr>"

text \<open>
  \<open>start_discussion\<close>: the result and the engine it leaves. \<open>range(1, max_rounds + 1)\<close>
  is \<open>[1..max_rounds]\<close>. The \<open>finally\<close> clause clears \<open>is_running\<close> on every path.
\<close>

definition start_discussion :: "env \<Rightarrow> engine \<Rightarrow> discussion_result \<times> engine" where
  "start_discussion e s =
     (let s0 = s\<lparr>is_running := True, current_round := 0\<rparr> in
      case discussion_rounds e [1..max_rounds s0] s0 of
        (Some err, s1) \<Rightarrow> (Error_result err, s1\<lparr>is_running := False\<rparr>)
      | (None, s1) \<Rightarrow>
          (if is_running s1 then
             (case generate_final_summary e s1 of
                (final_summary, s2) \<Rightarrow>
                  (let s3 = s2\<lparr>status := Some (ascii ''completed'')\<rparr> in
                   (Complete (complete_result_of final_summary s3), s3\<lparr>is_running := False\<rparr>)))
           else (create_interrupted_result s1, s1\<lparr>is_running := False\<rparr>)))"

subsection \<open>Construction and initialisation\<close>

text \<open>
  \<open>ClinicalDiscussionEngine.__init__\<close>, with \<open>args.discussion_rounds\<close> as its argument \<open>n_rounds\<close>. The
  object stored under a name that is not a key of \<open>agents\<close> is never read.
\<close>

definition new_engine :: "int \<Rightarrow> engine" where
  "new_engine n_rounds =
     \<lparr>is_running = False, current_round = 0, max_rounds = n_rounds,
      skip_remaining_agents = False, user_participation = False, discussion_log = [],
      user_interventions = [], medical_context = None, additional_info = [], status = None,
      agents = [], agent_obj = (\<lambda>n. new_agent [] []), decision_agent = None,
      shared_discussion_history = None, model_calls = []\<rparr>"

text \<open>
  Modelled from the spec: \<open>agents/agent_registry.py\<close> is not among the sources. A
  registry is taken as a parameter: for a name it answers \<open>None\<close> when no such agent
  is available, and otherwise what \<open>create_specialty_agent\<close> does, raise or return the
  participant (the spec: an entity exposing a single text-generation capability).
\<close>

type_synonym registry = "str \<Rightarrow> (py_exception + agent) option"

fun initialize_agents :: "registry \<Rightarrow> str list \<Rightarrow> engine \<Rightarrow> py_exception option \<times> engine" where
  "initialize_agents reg [] s = (None, s)"
| "initialize_agents reg (agent_name # rest) s =
     (case reg agent_name of
        None \<Rightarrow> initialize_agents reg rest s
      | Some (Inl err) \<Rightarrow> (Some err, s)
      | Some (Inr a) \<Rightarrow>
          initialize_agents reg rest
            (s\<lparr>agents := (if agent_name \<in> set (agents s) then agents s else agents s @ [agent_name]),
               agent_obj := (agent_obj s)(agent_name := a)\<rparr>))"

text \<open>
  \<open>initialize_discussion\<close>. \<open>made_decision_agent\<close> is the decision agent if the logic
  and decision agents could both be created, and \<open>None\<close> if not (the attribute then
  keeps its value).
\<close>

definition initialize_discussion ::
  "registry \<Rightarrow> agent option \<Rightarrow> str \<Rightarrow> str \<Rightarrow> str \<Rightarrow> str list \<Rightarrow> engine \<Rightarrow> bool \<times> engine" where
  "initialize_discussion reg made_decision_agent uid record_text discussion_question selected_agent_names s =
     (let s1 = s\<lparr>medical_context := Some \<lparr>medical_record = record_text,
                     question = discussion_question, selected_agents = selected_agent_names,
                     case_user_id = uid\<rparr>\<rparr>
      in case initialize_agents reg selected_agent_names (s1\<lparr>agents := []\<rparr>) of
           (Some err, s2) \<Rightarrow> (False, s2)
         | (None, s2) \<Rightarrow>
             (True, s2\<lparr>decision_agent := (case made_decision_agent of
                                             None \<Rightarrow> decision_agent s2 | Some d \<Rightarrow> Some d),
                       shared_discussion_history := Some []\<rparr>))"

subsection \<open>Notions used in the statements\<close>

text \<open>
  An engine is ready when the case is stored and the shared history exists, as after a
  successful \<open>initialize_discussion\<close>.
\<close>

definition ready :: "engine \<Rightarrow> bool" where
  "ready s = (medical_context s \<noteq> None \<and> shared_discussion_history s \<noteq> None)"

text \<open>The interface reports no input after round \<open>r\<close> (or there is no interface).\<close>

definition no_pending_input :: "env \<Rightarrow> int \<Rightarrow> bool" where
  "no_pending_input e r = (case interface e of None \<Rightarrow> True | Some has_user_input \<Rightarrow> \<not> has_user_input r)"

text \<open>The operator neither skips nor interrupts at the prompt after agent \<open>a\<close> in round \<open>r\<close>.\<close>

definition lets_continue :: "env \<Rightarrow> int \<Rightarrow> str \<Rightarrow> bool" where
  "lets_continue e r a = (user_choice e r a \<noteq> Some Skip_round \<and> user_choice e r a \<noteq> Some Interrupt)"

text \<open>
  The agents whose \<open>chat\<close> or \<open>chat_without_history\<close> reached the language model, in
  order of the calls: in a round these are the participants invoked for their
  contribution (answers to questions of the operator are \<open>User_question\<close> requests).
\<close>

fun is_chat :: "str \<times> request \<Rightarrow> bool" where
  "is_chat (agent_name, Chat msgs) = True"
| "is_chat (agent_name, User_question sys q ctx rec) = False"

definition invoked :: "(str \<times> request) list \<Rightarrow> str list" where
  "invoked calls = map fst (filter is_chat calls)"

text \<open>The rounds of the log that the scheduler ran, without the broadcast rounds.\<close>

definition scheduled_rounds :: "round_log list \<Rightarrow> round_log list" where
  "scheduled_rounds rs = filter (\<lambda>r. \<not> is_broadcast r) rs"

text \<open>\<open>needle in text\<close>, and whether a text occurs in a request sent to the model.\<close>

fun starts_with :: "str \<Rightarrow> str \<Rightarrow> bool" where
  "starts_with t [] = True"
| "starts_with [] (p # ps) = False"
| "starts_with (c # cs) (p # ps) = (c = p \<and> starts_with cs ps)"

fun contains :: "str \<Rightarrow> str \<Rightarrow> bool" where
  "contains [] needle = (needle = [])"
| "contains (c # cs) needle = (starts_with (c # cs) needle \<or> contains cs needle)"

fun mentions :: "request \<Rightarrow> str \<Rightarrow> bool" where
  "mentions (Chat msgs) needle = list_ex (\<lambda>m. contains (snd m) needle) msgs"
| "mentions (User_question sys q ctx rec) needle =
     (contains sys needle \<or> contains q needle \<or> list_ex (\<lambda>m. contains (snd m) needle) ctx
      \<or> contains rec needle)"

text \<open>
  What \<open>analyze_clinical_case\<close> returns for each outcome of its call of the model, for
  an agent of specialty \<open>spec\<close>.
\<close>

fun contribution_of :: "str \<Rightarrow> llm_result \<Rightarrow> analysis" where
  "contribution_of spec (Reply response) =
     Analysis_success spec (make_response_concise response) (length (make_response_concise response))"
| "contribution_of spec (Failure err) = Analysis_failure (Exception err) spec"

text \<open>
  \<open>frame names s s'\<close>: from \<open>s\<close> to \<open>s'\<close> the set-up of the discussion is unchanged,
  the shared history has not disappeared, the scheduled rounds of the log are the same,
  and the calls of the model that were added invoked exactly \<open>names\<close>.
\<close>

definition frame :: "str list \<Rightarrow> engine \<Rightarrow> engine \<Rightarrow> bool" where
  "frame names s s' =
     (agents s' = agents s \<and> user_participation s' = user_participation s
      \<and> medical_context s' = medical_context s \<and> max_rounds s' = max_rounds s
      \<and> decision_agent s' = decision_agent s \<and> current_round s' = current_round s
      \<and> status s' = status s
      \<and> (shared_discussion_history s \<noteq> None \<longrightarrow> shared_discussion_history s' \<noteq> None)
      \<and> (\<forall>n. specialty (agent_obj s' n) = specialty (agent_obj s n))
      \<and> scheduled_rounds (discussion_log s') = scheduled_rounds (discussion_log s)
      \<and> (\<exists>cs. model_calls s' = model_calls s @ cs \<and> invoked cs = names))"

text \<open>
  The content of the system message at the head of an agent's message list, if there
  is one: what \<open>set_shared_history\<close> keeps.
\<close>

definition system_head :: "agent \<Rightarrow> str option" where
  "system_head a = (case messages a of (System, content) # rest \<Rightarrow> Some content | _ \<Rightarrow> None)"

subsection \<open>A worked discussion\<close>

text \<open>
  The engine of the worked cases: three specialists \<open>A\<close>, \<open>B\<close> and \<open>C\<close>, a decision
  agent, two rounds, initialised on a case. \<open>demo_engine\<close> has intervention mode off,
  as a new engine has; \<open>demo_engine_interactive\<close> has it on, as the command line
  interface sets it at the operator's wish.
\<close>

definition demo_registry :: registry where
  "demo_registry n =
     (if n \<in> set [ascii ''A'', ascii ''B'', ascii ''C'']
      then Some (Inr (new_agent n (ascii ''specialist''))) else None)"

definition demo_engine :: engine where
  "demo_engine =
     snd (initialize_discussion demo_registry
            (Some (new_agent (ascii ''decision'') (ascii ''decide'')))
            (ascii ''u1'') (ascii ''case'') (ascii ''what now'')
            [ascii ''A'', ascii ''B'', ascii ''C''] (new_engine 2))"

definition demo_engine_interactive :: engine where
  "demo_engine_interactive = demo_engine\<lparr>user_participation := True\<rparr>"

text \<open>
  Surroundings in which the second call of the model fails and every other call
  answers, with the command line interface; the operator's entries are a parameter.
\<close>

definition demo_env :: "(int \<Rightarrow> str \<Rightarrow> intervention option) \<Rightarrow> env" where
  "demo_env choice =
     \<lparr>llm = (\<lambda>n. if n = 1 then Failure (ascii ''timeout'') else Reply (ascii ''fine'')),
      user_choice = choice, interface = cli_interface, current_date = ascii ''2025''\<rparr>"

text \<open>The operator who only ever presses the return key.\<close>

definition no_choice :: "int \<Rightarrow> str \<Rightarrow> intervention option" where
  "no_choice r a = None"

text \<open>The operator who makes one entry, after agent \<open>a0\<close> in round \<open>r0\<close>.\<close>

definition choice_at :: "int \<Rightarrow> str \<Rightarrow> intervention \<Rightarrow> int \<Rightarrow> str \<Rightarrow> intervention option" where
  "choice_at r0 a0 iv r a = (if r = r0 \<and> a = a0 then Some iv else None)"

text \<open>
  A log of four rounds: a round whose only contribution has 151 characters, a round
  whose only contribution failed, a broadcast round with one reply, and a round with a
  short contribution.
\<close>

definition demo_log :: "round_log list" where
  "demo_log =
     [Round 1 [Contribution (ascii ''A'') (Analysis_success (ascii ''A'') (replicate 151 97) 151)],
      Round 2 [Contribution (ascii ''A'') (Analysis_failure (Exception (ascii ''timeout'')) (ascii ''A''))],
      Broadcast_round 3 (ascii ''why'') [Response_entry (ascii ''B'') (ascii ''yes'')],
      Round 3 [Contribution (ascii ''C'') (Analysis_success (ascii ''C'') (ascii ''ok'') 2)]]"

text \<open>
  Surroundings in which every call of the model answers, and surroundings in which
  the first six calls answer and the seventh fails. In the worked discussion of two
  rounds of three with intervention mode off, the seventh call is that of the decision
  agent.
\<close>

definition calm_env :: "(int \<Rightarrow> str \<Rightarrow> intervention option) \<Rightarrow> env" where
  "calm_env choice =
     \<lparr>llm = (\<lambda>n. Reply (ascii ''fine'')),
      user_choice = choice, interface = cli_interface, current_date = ascii ''2025''\<rparr>"

definition decision_down_env :: env where
  "decision_down_env =
     \<lparr>llm = (\<lambda>n. if n = 6 then Failure (ascii ''timeout'') else Reply (ascii ''fine'')),
      user_choice = no_choice, interface = cli_interface, current_date = ascii ''2025''\<rparr>"

text \<open>The worked engine with one round planned, in intervention mode.\<close>

definition demo_engine_one_round :: engine where
  "demo_engine_one_round = demo_engine_interactive\<lparr>max_rounds := 1\<rparr>"

section \<open>Properties of the session store\<close>

subsection \<open>Rounding to binary64\<close>

lemma round_half_even_near:
  "\<bar>of_int (round_half_even q) - q\<bar> \<le> 1 / 2"
proof -
  have "of_int \<lfloor>q\<rfloor> \<le> q" "q < of_int \<lfloor>q\<rfloor> + 1" by linarith+
  then show ?thesis by (auto simp add: round_half_even_def Let_def)
qed

lemma round_half_even_le: "q \<le> of_int n \<Longrightarrow> round_half_even q \<le> n"
proof -
  assume a: "q \<le> of_int n"
  have fl: "\<lfloor>q\<rfloor> \<le> n" using a by (simp add: floor_le_iff)
  show ?thesis
  proof (cases "\<lfloor>q\<rfloor> = n")
    case True
    then have "q = of_int n" using a by (metis of_int_floor_le order_antisym)
    then show ?thesis by (simp add: round_half_even_def Let_def)
  next
    case False
    with fl have "\<lfloor>q\<rfloor> + 1 \<le> n" by simp
    then show ?thesis by (auto simp add: round_half_even_def Let_def)
  qed
qed

lemma round_half_even_ge: "of_int n \<le> q \<Longrightarrow> n \<le> round_half_even q"
proof -
  assume a: "of_int n \<le> q"
  then have "n \<le> \<lfloor>q\<rfloor>" by (simp add: le_floor_iff)
  then show ?thesis by (auto simp add: round_half_even_def Let_def)
qed


lemma quotient_of_pos:
  assumes "0 < x" and "quotient_of x = (p, q)"
  shows "0 < p" and "0 < q" and "x = of_int p / of_int q"
proof -
  show q: "0 < q" using assms(2) by (rule quotient_of_denom_pos)
  show x: "x = of_int p / of_int q" using assms(2) by (rule quotient_of_div)
  show "0 < p" using assms(1) q x by (simp add: zero_less_divide_iff)
qed

lemma bitlen_bounds_rat:
  assumes "0 < p"
  shows "(2::rat) powi (bitlen p - 1) \<le> of_int p" and "of_int p < (2::rat) powi bitlen p"
proof -
  have b: "2 ^ nat (bitlen p - 1) \<le> p" "p < 2 ^ nat (bitlen p)"
    using bitlen_bounds [OF assms] by simp_all
  have pos: "0 < bitlen p"
  proof (rule ccontr)
    assume "\<not> 0 < bitlen p"
    then have "nat (bitlen p) = 0" by simp
    with b(2) assms show False by simp
  qed
  have "(of_int (2 ^ nat (bitlen p - 1)) :: rat) \<le> of_int p"
    using b(1) by (simp only: of_int_le_iff)
  then show "(2::rat) powi (bitlen p - 1) \<le> of_int p"
    using pos by (simp add: power_int_def)
  have "(of_int p :: rat) < of_int (2 ^ nat (bitlen p))"
    using b(2) by (simp only: of_int_less_iff)
  then show "of_int p < (2::rat) powi bitlen p"
    using pos by (simp add: power_int_def)
qed

lemma binary_exponent_bounds:
  assumes "0 < x"
  shows "(2::rat) powi binary_exponent x \<le> x" and "x < (2::rat) powi (binary_exponent x + 1)"
proof -
  obtain p q where pq: "quotient_of x = (p, q)" by (cases "quotient_of x") auto
  note f = quotient_of_pos [OF assms pq]
  let ?e0 = "bitlen p - bitlen q"
  have p1: "(2::rat) powi (bitlen p - 1) \<le> of_int p" and p2: "of_int p < (2::rat) powi bitlen p"
    using bitlen_bounds_rat [OF f(1)] by simp_all
  have q1: "(2::rat) powi (bitlen q - 1) \<le> of_int q" and q2: "of_int q < (2::rat) powi bitlen q"
    using bitlen_bounds_rat [OF f(2)] by simp_all
  have qpos: "(0::rat) < of_int q" and ppos: "(0::rat) < of_int p" using f by simp_all
  have lo: "(2::rat) powi (?e0 - 1) < x"
  proof -
    have "(2::rat) powi (?e0 - 1) * of_int q < 2 powi (?e0 - 1) * 2 powi bitlen q"
      using q2 by (simp add: mult_strict_left_mono)
    also have "\<dots> = 2 powi (bitlen p - 1)"
      by (simp add: power_int_add [symmetric])
    also have "\<dots> \<le> of_int p" by (rule p1)
    finally show ?thesis using qpos f(3) by (simp add: pos_less_divide_eq)
  qed
  have hi: "x < (2::rat) powi (?e0 + 1)"
  proof -
    have "of_int p < (2::rat) powi bitlen p" by (rule p2)
    also have "\<dots> = 2 powi (?e0 + 1) * 2 powi (bitlen q - 1)"
      by (simp add: power_int_add [symmetric])
    also have "\<dots> \<le> 2 powi (?e0 + 1) * of_int q"
      using q1 by (simp add: mult_left_mono)
    finally show ?thesis using qpos f(3) by (simp add: pos_divide_less_eq)
  qed
  have e: "binary_exponent x = (if 2 powi ?e0 \<le> x then ?e0 else ?e0 - 1)"
    using pq by (simp add: binary_exponent_def Let_def)
  show "(2::rat) powi binary_exponent x \<le> x"
    using e lo by (auto simp add: less_imp_le)
  show "x < (2::rat) powi (binary_exponent x + 1)"
    using e hi by (auto simp add: not_le)
qed


lemma two_powi_pos: "(0::rat) < 2 powi e"
  by (simp add: zero_less_power_int)

lemma py_float_nonpos: "x \<le> 0 \<Longrightarrow> py_float x \<le> 0"
proof (cases "x = 0")
  case True
  then show ?thesis by (simp add: py_float_def)
next
  case False
  assume "x \<le> 0"
  with False have neg: "x < 0" by simp
  let ?u = "(2::rat) powi (binary_exponent \<bar>x\<bar> - 52)"
  have "of_int 0 \<le> \<bar>x\<bar> / ?u" using two_powi_pos [of "binary_exponent \<bar>x\<bar> - 52"] by simp
  then have "0 \<le> round_half_even (\<bar>x\<bar> / ?u)" by (rule round_half_even_ge)
  then have "0 \<le> of_int (round_half_even (\<bar>x\<bar> / ?u)) * ?u"
    using two_powi_pos [of "binary_exponent \<bar>x\<bar> - 52"] by simp
  then show ?thesis using neg False by (simp add: py_float_def Let_def)
qed

lemma py_float_pos_eq:
  "0 < x \<Longrightarrow> py_float x
     = of_int (round_half_even (x / 2 powi (binary_exponent x - 52))) * 2 powi (binary_exponent x - 52)"
  by (simp add: py_float_def Let_def)

lemma exponent_less:
  assumes "(2::rat) powi e \<le> x" and "x < 2 ^ n"
  shows "e < int n"
proof (rule ccontr)
  assume "\<not> e < int n"
  then have "int n \<le> e" by simp
  then have "(2::rat) powi int n \<le> 2 powi e" by (intro power_int_increasing) simp_all
  then have "(2::rat) ^ n \<le> 2 powi e" by simp
  with assms show False by simp
qed

lemma ulp_inverse:
  assumes "e \<le> 52"
  shows "(2::rat) powi (e - 52) * 2 ^ nat (52 - e) = 1"
proof -
  have "(2::rat) ^ nat (52 - e) = 2 powi (52 - e)" using assms by (simp add: power_int_def)
  moreover have "(2::rat) powi (e - 52) * 2 powi (52 - e) = 2 powi (e - 52 + (52 - e))"
    by (rule power_int_add [symmetric]) simp
  ultimately show ?thesis by simp
qed

lemma py_float_le_int:
  assumes "0 < x" and "x \<le> of_int T" and "T < 2 ^ 53"
  shows "py_float x \<le> of_int T"
proof -
  let ?e = "binary_exponent x"
  let ?u = "(2::rat) powi (?e - 52)"
  let ?k = "nat (52 - ?e)"
  have upos: "0 < ?u" by (rule two_powi_pos)
  have "x < 2 ^ 53"
  proof -
    have "(of_int T :: rat) < of_int (2 ^ 53)" using assms(3) by (simp only: of_int_less_iff)
    with assms(2) show ?thesis by simp
  qed
  then have "?e < int 53" using binary_exponent_bounds(1) [OF assms(1)] by (rule exponent_less [rotated])
  then have e52: "?e \<le> 52" by simp
  have inv: "?u * 2 ^ ?k = 1" using e52 by (rule ulp_inverse)
  have Tu: "of_int T / ?u = of_int (T * 2 ^ ?k)"
  proof -
    have "of_int (T * 2 ^ ?k) * ?u = of_int T * (?u * 2 ^ ?k)" by simp
    also have "\<dots> = of_int T" using inv by simp
    finally show ?thesis using upos by (simp add: divide_eq_eq)
  qed
  have "x / ?u \<le> of_int T / ?u" using assms(2) upos by (simp add: divide_right_mono)
  then have "x / ?u \<le> of_int (T * 2 ^ ?k)" using Tu by simp
  then have "round_half_even (x / ?u) \<le> T * 2 ^ ?k" by (rule round_half_even_le)
  then have "(of_int (round_half_even (x / ?u)) :: rat) \<le> of_int (T * 2 ^ ?k)"
    by (simp only: of_int_le_iff)
  then have "of_int (round_half_even (x / ?u)) * ?u \<le> of_int (T * 2 ^ ?k) * ?u"
    using upos by (simp add: mult_right_mono)
  also have "of_int (T * 2 ^ ?k) * ?u = of_int T * (?u * 2 ^ ?k)" by simp
  also have "\<dots> = of_int T" using inv by simp
  finally show ?thesis using assms(1) by (simp add: py_float_pos_eq)
qed

lemma py_float_gt_int:
  assumes "0 \<le> T" and "T < 2 ^ 34" and "of_int T + 1 / 1000000 \<le> x"
  shows "of_int T < py_float x"
proof -
  have xpos: "0 < x"
  proof -
    have "(0::rat) \<le> of_int T" using assms(1) by simp
    then show ?thesis using assms(3) by linarith
  qed
  let ?e = "binary_exponent x"
  let ?u = "(2::rat) powi (?e - 52)"
  let ?q = "x / ?u"
  let ?m = "round_half_even ?q"
  have upos: "0 < ?u" by (rule two_powi_pos)
  have fl: "py_float x = of_int ?m * ?u" using xpos by (rule py_float_pos_eq)
  note eb = binary_exponent_bounds [OF xpos]
  show ?thesis
  proof (cases "of_int T < (2::rat) powi ?e")
    case True
    have "(2::rat) powi 52 * ?u = 2 powi (52 + (?e - 52))"
      by (rule power_int_add [symmetric]) simp
    then have split: "(2::rat) ^ 52 * ?u = 2 powi ?e" by simp
    then have "(2::rat) ^ 52 * ?u \<le> x" using eb(1) by simp
    then have "(2::rat) ^ 52 \<le> ?q" using upos by (simp only: pos_le_divide_eq)
    then have "of_int (2 ^ 52) \<le> ?q" by simp
    then have "2 ^ 52 \<le> ?m" by (rule round_half_even_ge)
    then have mm: "(of_int (2 ^ 52) :: rat) \<le> of_int ?m" by (simp only: of_int_le_iff)
    have s2: "(of_int (2 ^ 52) :: rat) * ?u = 2 powi ?e" using split by simp
    have "(of_int (2 ^ 52) :: rat) * ?u \<le> of_int ?m * ?u"
      by (rule mult_right_mono [OF mm less_imp_le [OF upos]])
    then have "(2::rat) powi ?e \<le> of_int ?m * ?u" by (simp only: s2)
    with True fl show ?thesis by simp
  next
    case False
    then have le: "(2::rat) powi ?e \<le> of_int T" by simp
    have "(of_int T :: rat) < of_int (2 ^ 34)" using assms(2) by (simp only: of_int_less_iff)
    then have "(of_int T :: rat) < 2 ^ 34" by simp
    then have "?e < int 34" using le by (rule exponent_less [rotated])
    then have e33: "?e \<le> 33" by simp
    let ?k = "nat (52 - ?e)"
    have e52: "?e \<le> 52" using e33 by simp
    have inv: "?u * 2 ^ ?k = 1" using e52 by (rule ulp_inverse)
    have uinv: "1 / ?u = 2 ^ ?k" using inv upos by (simp add: divide_eq_eq mult.commute)
    have k19: "19 \<le> ?k" using e33 by simp
    have "(2::rat) ^ 19 \<le> 2 ^ ?k" using k19 by (intro power_increasing) simp_all
    then have big: "(524288::rat) \<le> 2 ^ ?k" by simp
    have q: "?q = x * 2 ^ ?k" using uinv by (simp add: divide_inverse)
    have "(of_int T + 1 / 1000000) * 2 ^ ?k \<le> x * 2 ^ ?k"
      using assms(3) by (simp add: mult_right_mono)
    then have "of_int (T * 2 ^ ?k) + 2 ^ ?k / 1000000 \<le> ?q"
      using q by (simp add: algebra_simps)
    moreover have "(1::rat) / 2 < 2 ^ ?k / 1000000" using big by simp
    ultimately have far: "of_int (T * 2 ^ ?k) + 1 / 2 < ?q" by linarith
    have "\<bar>of_int ?m - ?q\<bar> \<le> 1 / 2" by (rule round_half_even_near)
    with far have lt: "(of_int (T * 2 ^ ?k) :: rat) < of_int ?m" by linarith
    have unscale: "(of_int (T * 2 ^ ?k) :: rat) * ?u = of_int T"
    proof -
      have "(of_int (T * 2 ^ ?k) :: rat) * ?u = of_int T * (?u * 2 ^ ?k)" by simp
      also have "\<dots> = of_int T" by (simp only: inv mult_1_right)
      finally show ?thesis .
    qed
    have "(of_int (T * 2 ^ ?k) :: rat) * ?u < of_int ?m * ?u"
      by (rule mult_strict_right_mono [OF lt upos])
    then have "of_int T < of_int ?m * ?u" by (simp only: unscale)
    with fl show ?thesis by simp
  qed
qed

lemma total_seconds_gt_iff:
  assumes "0 \<le> t" and "t < 2 ^ 34"
  shows "(of_int t < total_seconds d) = (t * 1000000 < d)"
proof
  assume gt: "of_int t < total_seconds d"
  show "t * 1000000 < d"
  proof (rule ccontr)
    assume "\<not> t * 1000000 < d"
    then have "d \<le> t * 1000000" by simp
    then have "(of_int d :: rat) \<le> of_int (t * 1000000)" by (simp only: of_int_le_iff)
    then have le: "(of_int d :: rat) / 1000000 \<le> of_int t" by simp
    have t53: "t < 2 ^ 53" using assms(2) by simp
    have "py_float (of_int d / 1000000) \<le> of_int t"
    proof (cases "0 < (of_int d :: rat) / 1000000")
      case True
      then show ?thesis using le t53 by (rule py_float_le_int)
    next
      case False
      then have "py_float (of_int d / 1000000) \<le> 0" by (intro py_float_nonpos) simp
      moreover have "(0::rat) \<le> of_int t" using assms(1) by simp
      ultimately show ?thesis by linarith
    qed
    with gt show False by (simp add: total_seconds_def)
  qed
next
  assume "t * 1000000 < d"
  then have "t * 1000000 + 1 \<le> d" by simp
  then have "(of_int (t * 1000000 + 1) :: rat) \<le> of_int d" by (simp only: of_int_le_iff)
  then have "of_int t + 1 / 1000000 \<le> (of_int d :: rat) / 1000000" by (simp add: field_simps)
  then show "of_int t < total_seconds d"
    unfolding total_seconds_def using assms by (intro py_float_gt_int)
qed

text \<open>
  The bound \<open>2^34\<close> is sharp: from \<open>2^34\<close> seconds on, neighbouring floats are more than
  two microseconds apart and one microsecond past the timeout rounds back onto it.
\<close>

lemma total_seconds_beyond_bound:
  "\<not> of_int 17179869184 < total_seconds 17179869184000001"
  by code_simp

subsection \<open>Validation\<close>

lemma validate_session_unknown:
  "active_sessions h sid = None \<Longrightarrow> validate_session now sid h = ((False, None), h)"
  by (simp add: validate_session_def)

lemma validate_session_expired:
  "active_sessions h sid = Some session \<Longrightarrow>
   of_int (session_timeout h) < total_seconds (now - last_activity session) \<Longrightarrow>
   validate_session now sid h =
     ((False, None), h\<lparr>active_sessions := (active_sessions h)(sid := None)\<rparr>)"
  by (simp add: validate_session_def)

lemma validate_session_live:
  "active_sessions h sid = Some session \<Longrightarrow>
   \<not> of_int (session_timeout h) < total_seconds (now - last_activity session) \<Longrightarrow>
   validate_session now sid h =
     ((True, Some (session\<lparr>last_activity := now\<rparr>)),
      h\<lparr>active_sessions := (active_sessions h)(sid \<mapsto> session\<lparr>last_activity := now\<rparr>)\<rparr>)"
  by (simp add: validate_session_def Let_def)

text \<open>
  Claim C5. \<open>validate_session\<close> answers false exactly when the id is not in the store or
  the seconds since \<open>last_activity\<close>, as \<open>total_seconds\<close> reports them, are strictly more
  than the timeout. For a timeout from 0 up to (not including) \<open>2^34\<close> seconds that is
  the comparison of the exact times: a stored session validates at the timeout and at
  any time short of it, and fails from one microsecond past it on. A successful
  validation returns the session with \<open>last_activity\<close> set to now and stores it so,
  leaving every other entry alone.
\<close>

theorem validate_session_sliding_expiration:
  "(fst (fst (validate_session now sid h)) = False) =
     (active_sessions h sid = None \<or>
      (\<exists>session. active_sessions h sid = Some session \<and>
         total_seconds (now - last_activity session) > of_int (session_timeout h)))
   \<and> (0 \<le> session_timeout h \<longrightarrow> session_timeout h < 2 ^ 34 \<longrightarrow>
        (fst (fst (validate_session now sid h)) = False) =
          (active_sessions h sid = None \<or>
           (\<exists>session. active_sessions h sid = Some session \<and>
              now - last_activity session > session_timeout h * 1000000))
        \<and> (\<forall>session eps. active_sessions h sid = Some session \<longrightarrow> 0 \<le> eps \<longrightarrow>
              (now = last_activity session + session_timeout h * 1000000 - eps \<longrightarrow>
                 fst (fst (validate_session now sid h)))
            \<and> (0 < eps \<longrightarrow> now = last_activity session + session_timeout h * 1000000 + eps \<longrightarrow>
                 \<not> fst (fst (validate_session now sid h)))))
   \<and> (fst (fst (validate_session now sid h)) \<longrightarrow>
        (\<exists>session. active_sessions h sid = Some session
           \<and> snd (fst (validate_session now sid h)) = Some (session\<lparr>last_activity := now\<rparr>)
           \<and> snd (validate_session now sid h) =
               h\<lparr>active_sessions := (active_sessions h)(sid \<mapsto> session\<lparr>last_activity := now\<rparr>)\<rparr>))"
proof (cases "active_sessions h sid")
  case None
  then show ?thesis by (simp add: validate_session_unknown)
next
  case (Some session)
  have exact: "(of_int (session_timeout h) < total_seconds (now - last_activity session))
                 = (session_timeout h * 1000000 < now - last_activity session)"
    if "0 \<le> session_timeout h" and "session_timeout h < 2 ^ 34"
    using that by (rule total_seconds_gt_iff)
  show ?thesis
  proof (cases "of_int (session_timeout h) < total_seconds (now - last_activity session)")
    case True
    have run: "validate_session now sid h =
            ((False, None), h\<lparr>active_sessions := (active_sessions h)(sid := None)\<rparr>)"
      using Some True by (rule validate_session_expired)
    have late: "session_timeout h * 1000000 < now - last_activity session"
      if "0 \<le> session_timeout h" and "session_timeout h < 2 ^ 34"
      using exact [OF that] True by simp
    show ?thesis using Some True late run by auto
  next
    case False
    have run: "validate_session now sid h =
            ((True, Some (session\<lparr>last_activity := now\<rparr>)),
             h\<lparr>active_sessions := (active_sessions h)(sid \<mapsto> session\<lparr>last_activity := now\<rparr>)\<rparr>)"
      using Some False by (rule validate_session_live)
    have early: "\<not> session_timeout h * 1000000 < now - last_activity session"
      if "0 \<le> session_timeout h" and "session_timeout h < 2 ^ 34"
      using exact [OF that] False by simp
    show ?thesis using Some False early run by auto
  qed
qed

text \<open>
  The one-hour session of \<open>demo_handler\<close>, last active at 0: one microsecond before the
  hour it validates and its lease is refreshed, one microsecond after it does not.
\<close>

theorem validate_session_sliding_expiration_witness:
  "active_sessions demo_handler ''s1'' = Some demo_session
   \<and> 0 \<le> session_timeout demo_handler \<and> session_timeout demo_handler < 2 ^ 34
   \<and> fst (fst (validate_session 3599999999 ''s1'' demo_handler))
   \<and> snd (fst (validate_session 3599999999 ''s1'' demo_handler))
       = Some (demo_session\<lparr>last_activity := 3599999999\<rparr>)
   \<and> \<not> fst (fst (validate_session 3600000001 ''s1'' demo_handler))"
proof -
  have known: "active_sessions demo_handler ''s1'' = Some demo_session"
    by (simp add: demo_handler_def)
  have t: "session_timeout demo_handler = 3600" and l: "last_activity demo_session = 0"
    by (simp_all add: demo_handler_def demo_session_def)
  note early = validate_session_sliding_expiration [of 3599999999 "''s1''" demo_handler]
  note late = validate_session_sliding_expiration [of 3600000001 "''s1''" demo_handler]
  have ok: "fst (fst (validate_session 3599999999 ''s1'' demo_handler))"
    using early known t l by auto
  have refreshed: "snd (fst (validate_session 3599999999 ''s1'' demo_handler))
       = Some (demo_session\<lparr>last_activity := 3599999999\<rparr>)"
    using early ok known by auto
  have bad: "\<not> fst (fst (validate_session 3600000001 ''s1'' demo_handler))"
    using late known t l by auto
  from known ok refreshed bad t show ?thesis by simp
qed

text \<open>
  Claim C10. Validating a stored session whose inactivity exceeds the timeout (a timeout
  from 0 up to, not including, \<open>2^34\<close> seconds, where the float comparison of the code is
  exact) deletes it in that same call: the call answers \<open>(False, None)\<close>, and in the
  handler it leaves \<open>get_session_data\<close> finds nothing and \<open>validate_session\<close>, at
  whatever time, answers \<open>(False, None)\<close> again and changes nothing. No sweep is
  involved.
\<close>

theorem validate_session_removes_expired:
  assumes "active_sessions h sid = Some session"
      and "0 \<le> session_timeout h" and "session_timeout h < 2 ^ 34"
      and "now - last_activity session > session_timeout h * 1000000"
  shows "fst (validate_session now sid h) = (False, None)
       \<and> get_session_data sid (snd (validate_session now sid h)) = None
       \<and> (\<forall>later. validate_session later sid (snd (validate_session now sid h))
             = ((False, None), snd (validate_session now sid h)))"
proof -
  let ?h' = "h\<lparr>active_sessions := (active_sessions h)(sid := None)\<rparr>"
  have "of_int (session_timeout h) < total_seconds (now - last_activity session)"
    using assms(2-4) by (simp only: total_seconds_gt_iff)
  with assms(1) have gone: "validate_session now sid h = ((False, None), ?h')"
    by (rule validate_session_expired)
  have absent: "active_sessions ?h' sid = None" by simp
  have "\<forall>later. validate_session later sid ?h' = ((False, None), ?h')"
    using absent by (simp only: validate_session_unknown) simp
  with gone absent show ?thesis by (simp add: get_session_data_def)
qed

theorem validate_session_removes_expired_witness:
  "active_sessions demo_handler ''s1'' = Some demo_session
   \<and> 0 \<le> session_timeout demo_handler \<and> session_timeout demo_handler < 2 ^ 34
   \<and> 3600000001 - last_activity demo_session > session_timeout demo_handler * 1000000
   \<and> fst (validate_session 3600000001 ''s1'' demo_handler) = (False, None)
   \<and> get_session_data ''s1'' (snd (validate_session 3600000001 ''s1'' demo_handler)) = None
   \<and> fst (validate_session 3600000002 ''s1'' (snd (validate_session 3600000001 ''s1'' demo_handler)))
       = (False, None)"
proof -
  have known: "active_sessions demo_handler ''s1'' = Some demo_session"
    by (simp add: demo_handler_def)
  have lo: "0 \<le> session_timeout demo_handler" and hi: "session_timeout demo_handler < 2 ^ 34"
    by (simp_all add: demo_handler_def)
  have late: "3600000001 - last_activity demo_session > session_timeout demo_handler * 1000000"
    by (simp add: demo_handler_def demo_session_def)
  from validate_session_removes_expired [OF known lo hi late] known lo hi late
  show ?thesis by simp
qed
section \<open>Properties of the discussion engine\<close>

subsection \<open>What each step preserves\<close>

lemma frame_refl: "frame [] s s"
  by (simp add: frame_def invoked_def)

lemma frame_trans:
  assumes "frame xs s s'" and "frame ys s' s''"
  shows "frame (xs @ ys) s s''"
proof -
  from assms obtain cs ds where
    c: "model_calls s' = model_calls s @ cs" "invoked cs = xs" and
    d: "model_calls s'' = model_calls s' @ ds" "invoked ds = ys"
    by (auto simp add: frame_def)
  have "model_calls s'' = model_calls s @ (cs @ ds) \<and> invoked (cs @ ds) = xs @ ys"
    using c d by (simp add: invoked_def)
  then have ex: "\<exists>es. model_calls s'' = model_calls s @ es \<and> invoked es = xs @ ys"
    by blast
  from assms ex show ?thesis
    by (simp add: frame_def)
qed

lemma frame_ready: "frame xs s s' \<Longrightarrow> ready s \<Longrightarrow> ready s'"
  by (simp add: frame_def ready_def)

lemma specialty_set_shared_history [simp]:
  "specialty (set_shared_history h a) = specialty a"
  by (simp add: set_shared_history_def split: list.splits prod.splits role.splits)

lemma specialty_update_context [simp]:
  "specialty (update_context info a) = specialty a"
  by (simp add: update_context_def)

lemma chat_specialty:
  "chat outcome m a = (res, a', sent) \<Longrightarrow> specialty a' = specialty a"
  by (auto simp add: chat_def Let_def split: llm_result.splits)

lemma chat_result:
  "fst (chat outcome m a) = (case outcome of Reply r \<Rightarrow> Inr r | Failure err \<Rightarrow> Inl (Exception err))"
  by (simp add: chat_def Let_def split: llm_result.splits)

lemma chat_sent:
  "snd (snd (chat outcome m a)) = Chat (messages a @ [(User, m)])"
  by (simp add: chat_def Let_def split: llm_result.splits)

lemma analyze_clinical_case_contribution:
  "fst (analyze_clinical_case outcome med hist prompt a) = contribution_of (specialty a) outcome"
  by (cases outcome) (simp_all add: analyze_clinical_case_def chat_def Let_def)

lemma analyze_clinical_case_specialty:
  "specialty (fst (snd (analyze_clinical_case outcome med hist prompt a))) = specialty a"
  by (cases outcome) (simp_all add: analyze_clinical_case_def chat_def Let_def)

lemma analyze_clinical_case_is_chat:
  "is_chat (n, snd (snd (analyze_clinical_case outcome med hist prompt a)))"
  by (cases outcome) (simp_all add: analyze_clinical_case_def chat_def Let_def)

lemma agent_analysis_contribution:
  "fst (agent_analysis e a med hist prompt s)
     = contribution_of (specialty (agent_obj s a)) (llm e (length (model_calls s)))"
  by (simp add: agent_analysis_def analyze_clinical_case_contribution split: prod.splits)
     (metis analyze_clinical_case_contribution fst_conv)

lemma agent_analysis_frame:
  "frame [a] s (snd (agent_analysis e a med hist prompt s))"
proof -
  obtain c a' sent where r: "analyze_clinical_case (llm e (length (model_calls s))) med hist prompt (agent_obj s a) = (c, a', sent)"
    by (cases "analyze_clinical_case (llm e (length (model_calls s))) med hist prompt (agent_obj s a)") auto
  have sp: "specialty a' = specialty (agent_obj s a)"
    using analyze_clinical_case_specialty [of "llm e (length (model_calls s))" med hist prompt "agent_obj s a"] r by simp
  have ch: "is_chat (a, sent)"
    using analyze_clinical_case_is_chat [of a "llm e (length (model_calls s))" med hist prompt "agent_obj s a"] r by simp
  show ?thesis
    using r sp ch by (simp add: agent_analysis_def frame_def invoked_def)
qed

lemma agent_analysis_same:
  "is_running (snd (agent_analysis e a med hist prompt s)) = is_running s"
  "skip_remaining_agents (snd (agent_analysis e a med hist prompt s)) = skip_remaining_agents s"
  "discussion_log (snd (agent_analysis e a med hist prompt s)) = discussion_log s"
  "user_interventions (snd (agent_analysis e a med hist prompt s)) = user_interventions s"
  "shared_discussion_history (snd (agent_analysis e a med hist prompt s)) = shared_discussion_history s"
  "additional_info (snd (agent_analysis e a med hist prompt s)) = additional_info s"
  by (simp_all add: agent_analysis_def split: prod.splits)

lemma agent_analysis_calls:
  "length (model_calls (snd (agent_analysis e a med hist prompt s))) = Suc (length (model_calls s))"
  by (simp add: agent_analysis_def split: prod.splits)


lemma respond_not_chat:
  "\<not> is_chat (n, snd (respond_to_user_question outcome q ctx rec a))"
  by (cases outcome) (simp_all add: respond_to_user_question_def Let_def)

lemma ask_agent_frame: "frame [] s (snd (ask_agent e a q s))"
proof -
  obtain r sent where r: "respond_to_user_question (llm e (length (model_calls s))) q
             (get_current_discussion_context (discussion_log s)) (get_medical_record s)
             (agent_obj s a) = (r, sent)"
    by (cases "respond_to_user_question (llm e (length (model_calls s))) q
             (get_current_discussion_context (discussion_log s)) (get_medical_record s)
             (agent_obj s a)") auto
  have "\<not> is_chat (a, sent)"
    using respond_not_chat [of a "llm e (length (model_calls s))" q
             "get_current_discussion_context (discussion_log s)" "get_medical_record s" "agent_obj s a"] r
    by simp
  then show ?thesis
    using r by (simp add: ask_agent_def frame_def invoked_def)
qed

lemma ask_agent_same:
  "is_running (snd (ask_agent e a q s)) = is_running s"
  "skip_remaining_agents (snd (ask_agent e a q s)) = skip_remaining_agents s"
  "discussion_log (snd (ask_agent e a q s)) = discussion_log s"
  "user_interventions (snd (ask_agent e a q s)) = user_interventions s"
  "shared_discussion_history (snd (ask_agent e a q s)) = shared_discussion_history s"
  "agent_obj (snd (ask_agent e a q s)) = agent_obj s"
  "additional_info (snd (ask_agent e a q s)) = additional_info s"
  by (simp_all add: ask_agent_def split: prod.splits)

lemma add_to_shared_history_None:
  "(add_to_shared_history a c s = None) = (shared_discussion_history s = None)"
  by (simp add: add_to_shared_history_def split: option.splits)

lemma add_to_shared_history_frame:
  "add_to_shared_history a c s = Some s' \<Longrightarrow> frame [] s s'"
  by (auto simp add: add_to_shared_history_def frame_def invoked_def split: option.splits)

lemma add_to_shared_history_same:
  assumes "add_to_shared_history a c s = Some s'"
  shows "is_running s' = is_running s"
    and "skip_remaining_agents s' = skip_remaining_agents s"
    and "discussion_log s' = discussion_log s"
    and "user_interventions s' = user_interventions s"
    and "model_calls s' = model_calls s"
    and "agent_obj s' = agent_obj s"
    and "additional_info s' = additional_info s"
  using assms by (auto simp add: add_to_shared_history_def split: option.splits)

lemma broadcast_replies_frame:
  "broadcast_replies e q names es s = (r, s') \<Longrightarrow>
   frame [] s s' \<and> is_running s' = is_running s
   \<and> skip_remaining_agents s' = skip_remaining_agents s
   \<and> discussion_log s' = discussion_log s
   \<and> user_interventions s' = user_interventions s
   \<and> agent_obj s' = agent_obj s
   \<and> additional_info s' = additional_info s
   \<and> (shared_discussion_history s \<noteq> None \<longrightarrow> r \<noteq> None)"
proof (induction names arbitrary: es s)
  case Nil
  then show ?case by (auto simp add: frame_refl)
next
  case (Cons a names)
  obtain res s1 where ask: "ask_agent e a q s = (res, s1)"
    by (cases "ask_agent e a q s") auto
  have f1: "frame [] s s1" using ask_agent_frame [of s e a q] ask by simp
  have same1: "is_running s1 = is_running s" "skip_remaining_agents s1 = skip_remaining_agents s"
    "discussion_log s1 = discussion_log s" "user_interventions s1 = user_interventions s"
    "shared_discussion_history s1 = shared_discussion_history s" "agent_obj s1 = agent_obj s"
    "additional_info s1 = additional_info s"
    using ask_agent_same [of e a q s] ask by simp_all
  show ?case
  proof (cases res)
    case (Inl err)
    with Cons.prems ask have rec: "broadcast_replies e q names (es @ [Error_entry a err]) s1 = (r, s')"
      by simp
    from Cons.IH [OF rec] f1 same1 show ?thesis
      using frame_trans [of "[]" s s1 "[]" s'] by simp
  next
    case (Inr response_text)
    show ?thesis
    proof (cases "add_to_shared_history a (broadcast_reply_prefix @ take 200 response_text @ ellipsis) s1")
      case None
      with Cons.prems ask Inr have "r = None" "s' = s1" by simp_all
      moreover have "shared_discussion_history s = None"
        using None same1 by (simp add: add_to_shared_history_None)
      ultimately show ?thesis using f1 same1 by simp
    next
      case (Some s2)
      with Cons.prems ask Inr
      have rec: "broadcast_replies e q names (es @ [Response_entry a response_text]) s2 = (r, s')"
        by simp
      have f2: "frame [] s1 s2" using Some by (rule add_to_shared_history_frame)
      have same2: "is_running s2 = is_running s1" "skip_remaining_agents s2 = skip_remaining_agents s1"
        "discussion_log s2 = discussion_log s1" "user_interventions s2 = user_interventions s1"
        "agent_obj s2 = agent_obj s1" "additional_info s2 = additional_info s1"
        using add_to_shared_history_same [OF Some] by simp_all
      have h2: "shared_discussion_history s \<noteq> None \<longrightarrow> shared_discussion_history s2 \<noteq> None"
        using f1 f2 by (simp add: frame_def)
      have f02: "frame [] s s2" using frame_trans [OF f1 f2] by simp
      from Cons.IH [OF rec] f02 same1 same2 h2 show ?thesis
        using frame_trans [of "[]" s s2 "[]" s'] by simp
    qed
  qed
qed

lemma update_all_agents_frame: "frame [] s (update_all_agents info s)"
  by (simp add: update_all_agents_def frame_def invoked_def)

lemma update_medical_context_frame: "frame [] s (update_medical_context info s)"
  by (simp add: update_medical_context_def update_all_agents_def frame_def invoked_def)

lemma record_intervention_frame: "frame [] s (record_intervention iv s)"
  by (simp add: record_intervention_def frame_def invoked_def)

lemma frame_nil_trans: "frame [] s s' \<Longrightarrow> frame [] s' s'' \<Longrightarrow> frame [] s s''"
  using frame_trans [of "[]" s s' "[]" s''] by simp

lemma scheduled_rounds_broadcast [simp]:
  "scheduled_rounds (rs @ [Broadcast_round n q es]) = scheduled_rounds rs"
  by (simp add: scheduled_rounds_def)

lemma scheduled_rounds_round [simp]:
  "scheduled_rounds (rs @ [Round n es]) = scheduled_rounds rs @ [Round n es]"
  by (simp add: scheduled_rounds_def)

lemma handle_user_intervention_frame:
  "frame [] s (snd (handle_user_intervention e iv s))"
proof (cases iv)
  case (Question_to_agent t q)
  have "frame [] s (record_intervention iv (snd (ask_agent e t q s)))"
    using frame_nil_trans [OF ask_agent_frame record_intervention_frame] .
  then show ?thesis using Question_to_agent by (simp add: record_intervention_frame)
next
  case (Broadcast_question q)
  show ?thesis
  proof (cases "q = []")
    case True
    then show ?thesis using Broadcast_question by (simp add: record_intervention_frame)
  next
    case False
    obtain r s1 where b: "broadcast_replies e q (agents s) [] s = (r, s1)"
      by (cases "broadcast_replies e q (agents s) [] s") auto
    note f = broadcast_replies_frame [OF b]
    show ?thesis
    proof (cases r)
      case None
      then show ?thesis using Broadcast_question False b f by simp
    next
      case (Some es)
      let ?s2 = "s1\<lparr>discussion_log := discussion_log s1 @ [Broadcast_round (length (discussion_log s) + 1) q es]\<rparr>"
      have "frame [] s1 ?s2" by (simp add: frame_def invoked_def)
      then have "frame [] s (record_intervention iv ?s2)"
        using f frame_nil_trans record_intervention_frame by blast
      then show ?thesis using Broadcast_question False b Some by simp
    qed
  qed
next
  case (Add_information info)
  have "frame [] s (record_intervention iv (update_all_agents info (update_medical_context info s)))"
    using frame_nil_trans update_medical_context_frame update_all_agents_frame record_intervention_frame
    by blast
  then show ?thesis using Add_information by (simp add: record_intervention_frame)
next
  case Skip_round
  then show ?thesis by (simp add: frame_def invoked_def)
next
  case Interrupt
  then show ?thesis by (simp add: frame_def invoked_def)
qed

lemma handle_user_intervention_continue:
  assumes "iv \<noteq> Skip_round" and "iv \<noteq> Interrupt"
  shows "fst (handle_user_intervention e iv s) = False"
    and "is_running (snd (handle_user_intervention e iv s)) = is_running s"
    and "skip_remaining_agents (snd (handle_user_intervention e iv s)) = skip_remaining_agents s"
proof -
  have "fst (handle_user_intervention e iv s) = False
      \<and> is_running (snd (handle_user_intervention e iv s)) = is_running s
      \<and> skip_remaining_agents (snd (handle_user_intervention e iv s)) = skip_remaining_agents s"
  proof (cases iv)
    case (Question_to_agent t q)
    then show ?thesis by (simp add: record_intervention_def ask_agent_same)
  next
    case (Broadcast_question q)
    obtain r s1 where b: "broadcast_replies e q (agents s) [] s = (r, s1)"
      by (cases "broadcast_replies e q (agents s) [] s") auto
    note f = broadcast_replies_frame [OF b]
    show ?thesis using Broadcast_question b f
      by (cases r) (simp_all add: record_intervention_def)
  next
    case (Add_information info)
    then show ?thesis
      by (simp add: record_intervention_def update_all_agents_def update_medical_context_def)
  qed (use assms in simp_all)
  then show "fst (handle_user_intervention e iv s) = False"
    and "is_running (snd (handle_user_intervention e iv s)) = is_running s"
    and "skip_remaining_agents (snd (handle_user_intervention e iv s)) = skip_remaining_agents s"
    by simp_all
qed


lemma handle_user_intervention_stop:
  "handle_user_intervention e Skip_round s = (True, s\<lparr>skip_remaining_agents := True\<rparr>)"
  "handle_user_intervention e Interrupt s = (True, s\<lparr>is_running := False\<rparr>)"
  by simp_all

lemma agent_turn_ready:
  assumes rdy: "ready s"
    and turn: "agent_turn e r hist a es s = (stop, es', s')"
  shows "es' = es @ [Contribution a (contribution_of (specialty (agent_obj s a)) (llm e (length (model_calls s))))]
       \<and> frame [a] s s'
       \<and> stop = (user_participation s \<and> \<not> lets_continue e r a)
       \<and> (\<not> stop \<longrightarrow> is_running s' = is_running s \<and> skip_remaining_agents s' = skip_remaining_agents s)
       \<and> (user_participation s \<and> user_choice e r a = Some Interrupt \<longrightarrow>
             \<not> is_running s' \<and> skip_remaining_agents s' = skip_remaining_agents s)
       \<and> (user_participation s \<and> user_choice e r a = Some Skip_round \<longrightarrow>
             is_running s' = is_running s \<and> skip_remaining_agents s')
       \<and> (stop \<longrightarrow> user_interventions s' = user_interventions s \<and> discussion_log s' = discussion_log s)
       \<and> (\<not> user_participation s \<longrightarrow>
             discussion_log s' = discussion_log s \<and> user_interventions s' = user_interventions s
             \<and> length (model_calls s') = Suc (length (model_calls s)))"
proof -
  let ?s1 = "s\<lparr>agent_obj := (agent_obj s)(a := set_shared_history hist (agent_obj s a))\<rparr>"
  let ?prompt = "analysis_prompt_open @ a @ analysis_prompt_close"
  from rdy obtain c h where c: "medical_context s = Some c" and h: "shared_discussion_history s = Some h"
    by (auto simp add: ready_def)
  have f1: "frame [] s ?s1" by (simp add: frame_def invoked_def)
  obtain contribution s2 where an: "agent_analysis e a (medical_record c) hist ?prompt ?s1 = (contribution, s2)"
    by (cases "agent_analysis e a (medical_record c) hist ?prompt ?s1") auto
  have contr: "contribution = contribution_of (specialty (agent_obj s a)) (llm e (length (model_calls s)))"
    using agent_analysis_contribution [of e a "medical_record c" hist ?prompt ?s1] an by simp
  have f2: "frame [a] ?s1 s2"
    using agent_analysis_frame [of a ?s1 e "medical_record c" hist ?prompt] an by simp
  have same2: "is_running s2 = is_running s" "skip_remaining_agents s2 = skip_remaining_agents s"
    "discussion_log s2 = discussion_log s" "user_interventions s2 = user_interventions s"
    "shared_discussion_history s2 = Some h"
    using agent_analysis_same [of e a "medical_record c" hist ?prompt ?s1] an h by simp_all
  have len2: "length (model_calls s2) = Suc (length (model_calls s))"
    using agent_analysis_calls [of e a "medical_record c" hist ?prompt ?s1] an by simp
  obtain s3 where add: "add_to_shared_history a (concise_analysis_or_default contribution) s2 = Some s3"
    using same2 by (cases "add_to_shared_history a (concise_analysis_or_default contribution) s2")
      (simp_all add: add_to_shared_history_None)
  have f3: "frame [] s2 s3" using add by (rule add_to_shared_history_frame)
  have same3: "is_running s3 = is_running s" "skip_remaining_agents s3 = skip_remaining_agents s"
    "discussion_log s3 = discussion_log s" "user_interventions s3 = user_interventions s"
    "length (model_calls s3) = Suc (length (model_calls s))"
    using add_to_shared_history_same [OF add] same2 len2 by simp_all
  have f03: "frame [a] s s3"
    using frame_trans [OF f1 frame_trans [OF f2 f3]] by simp
  have up3: "user_participation s3 = user_participation s"
    using f03 by (simp add: frame_def)
  let ?es2 = "es @ [Contribution a contribution]"
  have unfold: "agent_turn e r hist a es s =
      (if user_participation s then
         (case user_choice e r a of
            None \<Rightarrow> (False, ?es2, s3)
          | Some iv \<Rightarrow>
              (case handle_user_intervention e iv s3 of
                 (stp, s4) \<Rightarrow> (if stp \<and> iv \<in> {Interrupt, Skip_round}
                                then (True, ?es2, s4) else (False, ?es2, s4))))
       else (False, ?es2, s3))"
    using c an add up3
    by (simp add: agent_turn_def Let_def get_blocking_user_intervention_def)
  show ?thesis
  proof (cases "user_participation s")
    case False
    with unfold turn have "stop = False" "es' = ?es2" "s' = s3" by simp_all
    with False contr f03 same3 show ?thesis by simp
  next
    case True
    show ?thesis
    proof (cases "user_choice e r a")
      case None
      with True unfold turn have "stop = False" "es' = ?es2" "s' = s3" by simp_all
      with True None contr f03 same3 show ?thesis by (simp add: lets_continue_def)
    next
      case (Some iv)
      obtain stp s4 where hd: "handle_user_intervention e iv s3 = (stp, s4)"
        by (cases "handle_user_intervention e iv s3") auto
      have f4: "frame [] s3 s4"
        using handle_user_intervention_frame [of s3 e iv] hd by simp
      have f04: "frame [a] s s4" using frame_trans [OF f03 f4] by simp
      have res: "es' = ?es2" "s' = s4" "stop = (stp \<and> iv \<in> {Interrupt, Skip_round})"
        using True Some unfold turn hd by (auto split: if_splits)
      show ?thesis
      proof (cases "iv = Skip_round \<or> iv = Interrupt")
        case True
        then have "stp" "s4 = (if iv = Skip_round then s3\<lparr>skip_remaining_agents := True\<rparr>
                                 else s3\<lparr>is_running := False\<rparr>)"
          using hd by auto
        with True \<open>user_participation s\<close> Some res contr f04 same3 show ?thesis
          by (auto simp add: lets_continue_def)
      next
        case False
        then have ne: "iv \<noteq> Skip_round" "iv \<noteq> Interrupt" by simp_all
        have "stp = False" "is_running s4 = is_running s3"
          "skip_remaining_agents s4 = skip_remaining_agents s3"
          using handle_user_intervention_continue [OF ne, of e s3] hd by simp_all
        with ne \<open>user_participation s\<close> Some res contr f04 same3 show ?thesis
          by (auto simp add: lets_continue_def)
      qed
    qed
  qed
qed

lemma upt_0_Suc_map: "map f [0 ..< Suc n] = f 0 # map (\<lambda>i. f (Suc i)) [0 ..< n]"
proof -
  have "[0 ..< Suc n] = 0 # map Suc [0 ..< n]"
    by (simp only: map_Suc_upt upt_conv_Cons [OF zero_less_Suc])
  then show ?thesis by (simp only: list.map map_map o_def)
qed

lemma speak_in_turn_all:
  assumes "ready s" and "\<not> skip_remaining_agents s"
    and "user_participation s \<longrightarrow> (\<forall>a \<in> set names. lets_continue e r a)"
    and "speak_in_turn e r hist names es s = (es', s')"
  shows "(\<exists>cs. es' = es @ cs \<and> map entry_agent cs = names
                \<and> (\<forall>x \<in> set cs. \<exists>a c. x = Contribution a c))
       \<and> frame names s s' \<and> is_running s' = is_running s \<and> \<not> skip_remaining_agents s'"
  using assms
proof (induction names arbitrary: es s)
  case Nil
  then show ?case by (simp add: frame_refl)
next
  case (Cons a names)
  obtain stop es1 s1 where t: "agent_turn e r hist a es s = (stop, es1, s1)"
    by (cases "agent_turn e r hist a es s") auto
  note at = agent_turn_ready [OF Cons.prems(1) t]
  have es1: "es1 = es @ [Contribution a (contribution_of (specialty (agent_obj s a)) (llm e (length (model_calls s))))]"
    using at by (rule conjunct1)
  have f1: "frame [a] s s1" using at by blast
  have stop_iff: "stop = (user_participation s \<and> \<not> lets_continue e r a)" using at by blast
  have ns: "\<not> stop" using stop_iff Cons.prems(3) by simp
  have keep: "is_running s1 = is_running s \<and> skip_remaining_agents s1 = skip_remaining_agents s"
    using at ns by blast
  have rec: "speak_in_turn e r hist names es1 s1 = (es', s')"
    using Cons.prems(2,4) t ns by simp
  have r1: "ready s1" using frame_ready [OF f1 Cons.prems(1)] .
  have up: "user_participation s1 = user_participation s" using f1 by (simp add: frame_def)
  have sk: "\<not> skip_remaining_agents s1" using keep Cons.prems(2) by simp
  have c1: "user_participation s1 \<longrightarrow> (\<forall>a \<in> set names. lets_continue e r a)"
    using Cons.prems(3) up by simp
  note ih = Cons.IH [OF r1 sk c1 rec]
  from ih obtain cs where cs: "es' = es1 @ cs" "map entry_agent cs = names"
    "\<forall>x \<in> set cs. \<exists>a c. x = Contribution a c" by blast
  have f2: "frame names s1 s'" using ih by blast
  have run2: "is_running s' = is_running s1" using ih by blast
  have sk2: "\<not> skip_remaining_agents s'" using ih by blast
  let ?x = "Contribution a (contribution_of (specialty (agent_obj s a)) (llm e (length (model_calls s))))"
  have "es' = es @ (?x # cs) \<and> map entry_agent (?x # cs) = a # names
         \<and> (\<forall>x \<in> set (?x # cs). \<exists>a c. x = Contribution a c)"
    using cs es1 by simp
  then have ex: "\<exists>cs. es' = es @ cs \<and> map entry_agent cs = a # names
                \<and> (\<forall>x \<in> set cs. \<exists>a c. x = Contribution a c)" by (rule exI)
  have f: "frame (a # names) s s'" using frame_trans [OF f1 f2] by simp
  have run: "is_running s' = is_running s" using run2 keep by simp
  from ex f run sk2 show ?case by (intro conjI)
qed


lemma speak_in_turn_quiet:
  assumes "ready s" and "\<not> skip_remaining_agents s" and "\<not> user_participation s"
    and "speak_in_turn e r hist names es s = (es', s')"
  shows "es' = es @ map (\<lambda>i. Contribution (names ! i)
                    (contribution_of (specialty (agent_obj s (names ! i)))
                       (llm e (length (model_calls s) + i)))) [0 ..< length names]
       \<and> discussion_log s' = discussion_log s \<and> user_interventions s' = user_interventions s
       \<and> length (model_calls s') = length (model_calls s) + length names"
  using assms
proof (induction names arbitrary: es s)
  case Nil
  then show ?case by simp
next
  case (Cons a names)
  obtain stop es1 s1 where t: "agent_turn e r hist a es s = (stop, es1, s1)"
    by (cases "agent_turn e r hist a es s") auto
  note at = agent_turn_ready [OF Cons.prems(1) t]
  let ?f = "\<lambda>i. Contribution ((a # names) ! i)
                    (contribution_of (specialty (agent_obj s ((a # names) ! i)))
                       (llm e (length (model_calls s) + i)))"
  have es1: "es1 = es @ [?f 0]" using at by simp
  have f1: "frame [a] s s1" using at by blast
  have stop_iff: "stop = (user_participation s \<and> \<not> lets_continue e r a)" using at by blast
  have ns: "\<not> stop" using stop_iff Cons.prems(3) by simp
  have keep: "is_running s1 = is_running s \<and> skip_remaining_agents s1 = skip_remaining_agents s"
    using at ns by blast
  have q1: "discussion_log s1 = discussion_log s \<and> user_interventions s1 = user_interventions s
             \<and> length (model_calls s1) = Suc (length (model_calls s))"
    using at Cons.prems(3) by blast
  have rec: "speak_in_turn e r hist names es1 s1 = (es', s')"
    using Cons.prems(2,4) t ns by simp
  have r1: "ready s1" using frame_ready [OF f1 Cons.prems(1)] .
  have up: "\<not> user_participation s1" using f1 Cons.prems(3) by (simp add: frame_def)
  have sk: "\<not> skip_remaining_agents s1" using keep Cons.prems(2) by simp
  have sp: "\<And>n. specialty (agent_obj s1 n) = specialty (agent_obj s n)"
    using f1 by (simp add: frame_def)
  note ih = Cons.IH [OF r1 sk up rec]
  have tail: "map (\<lambda>i. Contribution (names ! i)
                    (contribution_of (specialty (agent_obj s1 (names ! i)))
                       (llm e (length (model_calls s1) + i)))) [0 ..< length names]
             = map (\<lambda>i. ?f (Suc i)) [0 ..< length names]"
    using sp q1 by simp
  have whole: "map ?f [0 ..< length (a # names)] = ?f 0 # map (\<lambda>i. ?f (Suc i)) [0 ..< length names]"
    unfolding length_Cons by (rule upt_0_Suc_map)
  have a1: "es' = es1 @ map (\<lambda>i. Contribution (names ! i)
                    (contribution_of (specialty (agent_obj s1 (names ! i)))
                       (llm e (length (model_calls s1) + i)))) [0 ..< length names]"
    using ih by (rule conjunct1)
  have a2: "discussion_log s' = discussion_log s1" "user_interventions s' = user_interventions s1"
     "length (model_calls s') = length (model_calls s1) + length names"
    using ih by simp_all
  have c1: "es' = es @ map ?f [0 ..< length (a # names)]"
    unfolding whole a1 tail es1 by simp
  have c2: "discussion_log s' = discussion_log s" "user_interventions s' = user_interventions s"
    using a2 q1 by simp_all
  have c3: "length (model_calls s') = length (model_calls s) + length (a # names)"
    using a2 q1 by simp
  from c1 c2 c3 show ?case by (intro conjI)
qed

lemma speak_in_turn_stop:
  assumes "ready s" and "\<not> skip_remaining_agents s" and "user_participation s"
    and "\<forall>x \<in> set pre. lets_continue e r x" and "\<not> lets_continue e r a"
    and "speak_in_turn e r hist (pre @ a # post) es s = (es', s')"
  shows "(\<exists>cs. es' = es @ cs \<and> map entry_agent cs = pre @ [a]
                \<and> (\<forall>x \<in> set cs. \<exists>a c. x = Contribution a c))
       \<and> frame (pre @ [a]) s s'
       \<and> (user_choice e r a = Some Interrupt \<longrightarrow> \<not> is_running s' \<and> \<not> skip_remaining_agents s')
       \<and> (user_choice e r a = Some Skip_round \<longrightarrow> is_running s' = is_running s \<and> skip_remaining_agents s')
       \<and> user_interventions s' = user_interventions (snd (speak_in_turn e r hist pre es s))
       \<and> discussion_log s' = discussion_log (snd (speak_in_turn e r hist pre es s))"
  using assms
proof (induction pre arbitrary: es s)
  case Nil
  obtain stop es1 s1 where t: "agent_turn e r hist a es s = (stop, es1, s1)"
    by (cases "agent_turn e r hist a es s") auto
  note at = agent_turn_ready [OF Nil.prems(1) t]
  let ?x = "Contribution a (contribution_of (specialty (agent_obj s a)) (llm e (length (model_calls s))))"
  have es1: "es1 = es @ [?x]" using at by (rule conjunct1)
  have f1: "frame [a] s s1" using at by blast
  have stop_iff: "stop = (user_participation s \<and> \<not> lets_continue e r a)" using at by blast
  have st: "stop" using stop_iff Nil.prems(3,5) by simp
  have i1: "user_choice e r a = Some Interrupt \<longrightarrow>
             \<not> is_running s1 \<and> skip_remaining_agents s1 = skip_remaining_agents s"
    using at Nil.prems(3) by blast
  have i2: "user_choice e r a = Some Skip_round \<longrightarrow>
             is_running s1 = is_running s \<and> skip_remaining_agents s1"
    using at Nil.prems(3) by blast
  have i3: "user_interventions s1 = user_interventions s \<and> discussion_log s1 = discussion_log s"
    using at st by blast
  have res: "es' = es1" "s' = s1" using Nil.prems(2,6) t st by simp_all
  have "es' = es @ [?x] \<and> map entry_agent [?x] = [] @ [a] \<and> (\<forall>x \<in> set [?x]. \<exists>a c. x = Contribution a c)"
    using es1 res by simp
  then have ex: "\<exists>cs. es' = es @ cs \<and> map entry_agent cs = [] @ [a]
                \<and> (\<forall>x \<in> set cs. \<exists>a c. x = Contribution a c)" by (rule exI)
  have g1: "frame ([] @ [a]) s s'" using f1 res by simp
  have g2: "user_choice e r a = Some Interrupt \<longrightarrow> \<not> is_running s' \<and> \<not> skip_remaining_agents s'"
    using i1 res Nil.prems(2) by simp
  have g3: "user_choice e r a = Some Skip_round \<longrightarrow> is_running s' = is_running s \<and> skip_remaining_agents s'"
    using i2 res by simp
  have g4: "user_interventions s' = user_interventions (snd (speak_in_turn e r hist [] es s))"
    "discussion_log s' = discussion_log (snd (speak_in_turn e r hist [] es s))"
    using i3 res by simp_all
  from ex g1 g2 g3 g4 show ?case by (intro conjI)
next
  case (Cons b pre)
  obtain stop es1 s1 where t: "agent_turn e r hist b es s = (stop, es1, s1)"
    by (cases "agent_turn e r hist b es s") auto
  note at = agent_turn_ready [OF Cons.prems(1) t]
  let ?x = "Contribution b (contribution_of (specialty (agent_obj s b)) (llm e (length (model_calls s))))"
  have es1: "es1 = es @ [?x]" using at by (rule conjunct1)
  have f1: "frame [b] s s1" using at by blast
  have stop_iff: "stop = (user_participation s \<and> \<not> lets_continue e r b)" using at by blast
  have ns: "\<not> stop" using stop_iff Cons.prems(4) by simp
  have keep: "is_running s1 = is_running s \<and> skip_remaining_agents s1 = skip_remaining_agents s"
    using at ns by blast
  have rec: "speak_in_turn e r hist (pre @ a # post) es1 s1 = (es', s')"
    using Cons.prems(2,6) t ns by simp
  have pre_eq: "speak_in_turn e r hist (b # pre) es s = speak_in_turn e r hist pre es1 s1"
    using Cons.prems(2) t ns by simp
  have r1: "ready s1" using frame_ready [OF f1 Cons.prems(1)] .
  have up: "user_participation s1" using f1 Cons.prems(3) by (simp add: frame_def)
  have sk: "\<not> skip_remaining_agents s1" using keep Cons.prems(2) by simp
  have c1: "\<forall>x \<in> set pre. lets_continue e r x" using Cons.prems(4) by simp
  note ih = Cons.IH [OF r1 sk up c1 Cons.prems(5) rec]
  from ih obtain cs where cs: "es' = es1 @ cs" "map entry_agent cs = pre @ [a]"
    "\<forall>x \<in> set cs. \<exists>a c. x = Contribution a c" by blast
  have f2: "frame (pre @ [a]) s1 s'" using ih by blast
  have h2: "user_choice e r a = Some Interrupt \<longrightarrow> \<not> is_running s' \<and> \<not> skip_remaining_agents s'"
    using ih by blast
  have h3: "user_choice e r a = Some Skip_round \<longrightarrow> is_running s' = is_running s1 \<and> skip_remaining_agents s'"
    using ih by blast
  have h4: "user_interventions s' = user_interventions (snd (speak_in_turn e r hist pre es1 s1))"
    "discussion_log s' = discussion_log (snd (speak_in_turn e r hist pre es1 s1))"
    using ih by blast+
  have "es' = es @ (?x # cs) \<and> map entry_agent (?x # cs) = (b # pre) @ [a]
         \<and> (\<forall>x \<in> set (?x # cs). \<exists>a c. x = Contribution a c)"
    using cs es1 by simp
  then have ex: "\<exists>cs. es' = es @ cs \<and> map entry_agent cs = (b # pre) @ [a]
                \<and> (\<forall>x \<in> set cs. \<exists>a c. x = Contribution a c)" by (rule exI)
  have g1: "frame ((b # pre) @ [a]) s s'" using frame_trans [OF f1 f2] by simp
  have g3: "user_choice e r a = Some Skip_round \<longrightarrow> is_running s' = is_running s \<and> skip_remaining_agents s'"
    using h3 keep by simp
  have g4: "user_interventions s' = user_interventions (snd (speak_in_turn e r hist (b # pre) es s))"
    "discussion_log s' = discussion_log (snd (speak_in_turn e r hist (b # pre) es s))"
    using h4 pre_eq by simp_all
  from ex g1 h2 g3 g4 show ?case by (intro conjI)
qed

lemma execute_discussion_round_all:
  assumes "ready s"
    and "user_participation s \<longrightarrow> (\<forall>a \<in> set (agents s). lets_continue e r a)"
    and "execute_discussion_round e r s = (rl, s')"
  shows "(\<exists>es. rl = Round r es \<and> map entry_agent es = agents s
                \<and> (\<forall>x \<in> set es. \<exists>a c. x = Contribution a c))
       \<and> frame (agents s) s s' \<and> is_running s' = is_running s"
proof -
  let ?s1 = "s\<lparr>skip_remaining_agents := False\<rparr>"
  let ?hist = "get_current_discussion_context (discussion_log ?s1)"
  obtain es s2 where sp: "speak_in_turn e r ?hist (agents ?s1) [] ?s1 = (es, s2)"
    by (cases "speak_in_turn e r ?hist (agents ?s1) [] ?s1") auto
  have res: "rl = Round r es" "s' = s2"
    using assms(3) sp by (simp_all add: execute_discussion_round_def)
  have r1: "ready ?s1" using assms(1) by (simp add: ready_def)
  have c1: "user_participation ?s1 \<longrightarrow> (\<forall>a \<in> set (agents ?s1). lets_continue e r a)"
    using assms(2) by simp
  have sk: "\<not> skip_remaining_agents ?s1" by simp
  note sa = speak_in_turn_all [OF r1 sk c1 sp]
  from sa obtain cs where cs: "es = [] @ cs" "map entry_agent cs = agents ?s1"
    "\<forall>x \<in> set cs. \<exists>a c. x = Contribution a c" by blast
  have f2: "frame (agents ?s1) ?s1 s2" using sa by blast
  have run: "is_running s2 = is_running ?s1" using sa by blast
  have f1: "frame [] s ?s1" by (simp add: frame_def invoked_def)
  have f: "frame (agents s) s s'" using frame_trans [OF f1 f2] res by simp
  have "rl = Round r es \<and> map entry_agent es = agents s \<and> (\<forall>x \<in> set es. \<exists>a c. x = Contribution a c)"
    using cs res by simp
  then have ex: "\<exists>es. rl = Round r es \<and> map entry_agent es = agents s
                \<and> (\<forall>x \<in> set es. \<exists>a c. x = Contribution a c)" by (rule exI)
  have run': "is_running s' = is_running s" using run res by simp
  from ex f run' show ?thesis by (intro conjI)
qed

lemma execute_discussion_round_quiet:
  assumes "ready s" and "\<not> user_participation s"
    and "execute_discussion_round e r s = (rl, s')"
  shows "rl = Round r (map (\<lambda>i. Contribution (agents s ! i)
                    (contribution_of (specialty (agent_obj s (agents s ! i)))
                       (llm e (length (model_calls s) + i)))) [0 ..< length (agents s)])
       \<and> discussion_log s' = discussion_log s \<and> user_interventions s' = user_interventions s
       \<and> length (model_calls s') = length (model_calls s) + length (agents s)"
proof -
  let ?s1 = "s\<lparr>skip_remaining_agents := False\<rparr>"
  let ?hist = "get_current_discussion_context (discussion_log ?s1)"
  obtain es s2 where sp: "speak_in_turn e r ?hist (agents ?s1) [] ?s1 = (es, s2)"
    by (cases "speak_in_turn e r ?hist (agents ?s1) [] ?s1") auto
  have res: "rl = Round r es" "s' = s2"
    using assms(3) sp by (simp_all add: execute_discussion_round_def)
  have r1: "ready ?s1" using assms(1) by (simp add: ready_def)
  have up: "\<not> user_participation ?s1" using assms(2) by simp
  have sk: "\<not> skip_remaining_agents ?s1" by simp
  note sq = speak_in_turn_quiet [OF r1 sk up sp]
  show ?thesis using sq res by simp
qed

lemma execute_discussion_round_stop:
  assumes "ready s" and "user_participation s"
    and "agents s = pre @ a # post"
    and "\<forall>x \<in> set pre. lets_continue e r x" and "\<not> lets_continue e r a"
    and "execute_discussion_round e r s = (rl, s')"
  shows "(\<exists>es. rl = Round r es \<and> map entry_agent es = pre @ [a]
                \<and> (\<forall>x \<in> set es. \<exists>a c. x = Contribution a c))
       \<and> frame (pre @ [a]) s s'
       \<and> (user_choice e r a = Some Interrupt \<longrightarrow> \<not> is_running s' \<and> \<not> skip_remaining_agents s')
       \<and> (user_choice e r a = Some Skip_round \<longrightarrow> is_running s' = is_running s \<and> skip_remaining_agents s')"
proof -
  let ?s1 = "s\<lparr>skip_remaining_agents := False\<rparr>"
  let ?hist = "get_current_discussion_context (discussion_log ?s1)"
  obtain es s2 where sp: "speak_in_turn e r ?hist (pre @ a # post) [] ?s1 = (es, s2)"
    by (cases "speak_in_turn e r ?hist (pre @ a # post) [] ?s1") auto
  have res: "rl = Round r es" "s' = s2"
    using assms(3,6) sp by (simp_all add: execute_discussion_round_def)
  have r1: "ready ?s1" using assms(1) by (simp add: ready_def)
  have up: "user_participation ?s1" using assms(2) by simp
  have sk: "\<not> skip_remaining_agents ?s1" by simp
  note st = speak_in_turn_stop [OF r1 sk up assms(4) assms(5) sp]
  from st obtain cs where cs: "es = [] @ cs" "map entry_agent cs = pre @ [a]"
    "\<forall>x \<in> set cs. \<exists>a c. x = Contribution a c" by blast
  have f2: "frame (pre @ [a]) ?s1 s2" using st by blast
  have h2: "user_choice e r a = Some Interrupt \<longrightarrow> \<not> is_running s2 \<and> \<not> skip_remaining_agents s2"
    using st by blast
  have h3: "user_choice e r a = Some Skip_round \<longrightarrow> is_running s2 = is_running ?s1 \<and> skip_remaining_agents s2"
    using st by blast
  have f1: "frame [] s ?s1" by (simp add: frame_def invoked_def)
  have f: "frame (pre @ [a]) s s'" using frame_trans [OF f1 f2] res by simp
  have "rl = Round r es \<and> map entry_agent es = pre @ [a] \<and> (\<forall>x \<in> set es. \<exists>a c. x = Contribution a c)"
    using cs res by simp
  then have ex: "\<exists>es. rl = Round r es \<and> map entry_agent es = pre @ [a]
                \<and> (\<forall>x \<in> set es. \<exists>a c. x = Contribution a c)" by (rule exI)
  have g2: "user_choice e r a = Some Interrupt \<longrightarrow> \<not> is_running s' \<and> \<not> skip_remaining_agents s'"
    using h2 res by simp
  have g3: "user_choice e r a = Some Skip_round \<longrightarrow> is_running s' = is_running s \<and> skip_remaining_agents s'"
    using h3 res by simp
  from ex f g2 g3 show ?thesis by (intro conjI)
qed

lemma discussion_rounds_quiet:
  assumes "ready s" and "\<not> user_participation s" and "is_running s"
  shows "\<exists>s'. discussion_rounds e rs s = (None, s')
       \<and> discussion_log s' = discussion_log s @
           map (\<lambda>j. Round (rs ! j)
                  (map (\<lambda>i. Contribution (agents s ! i)
                          (contribution_of (specialty (agent_obj s (agents s ! i)))
                             (llm e (length (model_calls s) + j * length (agents s) + i))))
                     [0 ..< length (agents s)]))
             [0 ..< length rs]
       \<and> user_interventions s' = user_interventions s
       \<and> is_running s' \<and> ready s' \<and> agents s' = agents s
       \<and> medical_context s' = medical_context s \<and> decision_agent s' = decision_agent s
       \<and> status s' = status s
       \<and> current_round s' = (if rs = [] then current_round s else last rs)
       \<and> length (model_calls s') = length (model_calls s) + length rs * length (agents s)"
  using assms
proof (induction rs arbitrary: s)
  case Nil
  then show ?case by simp
next
  case (Cons r rs)
  let ?k = "length (agents s)"
  let ?n = "length (model_calls s)"
  let ?s1 = "s\<lparr>current_round := r\<rparr>"
  let ?row = "\<lambda>b. map (\<lambda>i. Contribution (agents s ! i)
                          (contribution_of (specialty (agent_obj s (agents s ! i))) (llm e (b + i))))
                     [0 ..< ?k]"
  obtain rl s2 where ex: "execute_discussion_round e r ?s1 = (rl, s2)"
    by (cases "execute_discussion_round e r ?s1") auto
  have r1: "ready ?s1" using Cons.prems(1) by (simp add: ready_def)
  have up1: "\<not> user_participation ?s1" using Cons.prems(2) by simp
  have c1: "user_participation ?s1 \<longrightarrow> (\<forall>a \<in> set (agents ?s1). lets_continue e r a)"
    using up1 by simp
  note q = execute_discussion_round_quiet [OF r1 up1 ex]
  note g = execute_discussion_round_all [OF r1 c1 ex]
  have rl: "rl = Round r (?row ?n)" using q by simp
  have f: "frame (agents ?s1) ?s1 s2" using g by blast
  have run2: "is_running s2" using g Cons.prems(3) by simp
  let ?s3 = "s2\<lparr>discussion_log := discussion_log s2 @ [rl]\<rparr>"
  have up3: "\<not> user_participation ?s3" using f up1 by (simp add: frame_def)
  have nochk: "\<not> check_user_intervention e ?s3" using up3 by (simp add: check_user_intervention_def)
  have step: "discussion_rounds e (r # rs) s = discussion_rounds e rs ?s3"
    using Cons.prems(3) ex nochk by (simp add: Let_def)
  have r3: "ready ?s3" using frame_ready [OF f r1] by (simp add: ready_def)
  have run3: "is_running ?s3" using run2 by simp
  from Cons.IH [OF r3 up3 run3] obtain s' where
    ih: "discussion_rounds e rs ?s3 = (None, s')"
      "discussion_log s' = discussion_log ?s3 @
           map (\<lambda>j. Round (rs ! j)
                  (map (\<lambda>i. Contribution (agents ?s3 ! i)
                          (contribution_of (specialty (agent_obj ?s3 (agents ?s3 ! i)))
                             (llm e (length (model_calls ?s3) + j * length (agents ?s3) + i))))
                     [0 ..< length (agents ?s3)]))
             [0 ..< length rs]"
      "user_interventions s' = user_interventions ?s3"
      "is_running s'" "ready s'" "agents s' = agents ?s3"
      "medical_context s' = medical_context ?s3" "decision_agent s' = decision_agent ?s3"
      "status s' = status ?s3"
      "current_round s' = (if rs = [] then current_round ?s3 else last rs)"
      "length (model_calls s') = length (model_calls ?s3) + length rs * length (agents ?s3)"
    by blast
  have ag3: "agents ?s3 = agents s" using f by (simp add: frame_def)
  have sp3: "\<And>n. specialty (agent_obj ?s3 n) = specialty (agent_obj s n)"
    using f by (simp add: frame_def)
  have len3: "length (model_calls ?s3) = ?n + ?k" using q by simp
  have log3: "discussion_log ?s3 = discussion_log s @ [Round r (?row ?n)]" using q rl by simp
  have fr3: "medical_context ?s3 = medical_context s" "decision_agent ?s3 = decision_agent s"
    "status ?s3 = status s" "current_round ?s3 = r"
    using f by (simp_all add: frame_def)
  have iv3: "user_interventions ?s3 = user_interventions s" using q by simp
  have tail: "map (\<lambda>j. Round (rs ! j)
                  (map (\<lambda>i. Contribution (agents ?s3 ! i)
                          (contribution_of (specialty (agent_obj ?s3 (agents ?s3 ! i)))
                             (llm e (length (model_calls ?s3) + j * length (agents ?s3) + i))))
                     [0 ..< length (agents ?s3)]))
             [0 ..< length rs]
            = map (\<lambda>j. Round ((r # rs) ! Suc j) (?row (?n + Suc j * ?k))) [0 ..< length rs]"
    unfolding ag3 sp3 len3 by (simp add: ac_simps)
  have whole: "map (\<lambda>j. Round ((r # rs) ! j) (?row (?n + j * ?k))) [0 ..< length (r # rs)]
        = Round r (?row ?n) # map (\<lambda>j. Round ((r # rs) ! Suc j) (?row (?n + Suc j * ?k))) [0 ..< length rs]"
    unfolding length_Cons upt_0_Suc_map by simp
  have c_log: "discussion_log s' = discussion_log s @
        map (\<lambda>j. Round ((r # rs) ! j) (?row (?n + j * ?k))) [0 ..< length (r # rs)]"
    unfolding whole using ih(2) tail log3 by simp
  have c_cur: "current_round s' = (if r # rs = [] then current_round s else last (r # rs))"
    using ih(10) fr3 by simp
  have c_len: "length (model_calls s') = ?n + length (r # rs) * ?k"
    using ih(11) len3 ag3 by simp
  have "discussion_rounds e (r # rs) s = (None, s')
       \<and> discussion_log s' = discussion_log s @
           map (\<lambda>j. Round ((r # rs) ! j) (?row (?n + j * ?k))) [0 ..< length (r # rs)]
       \<and> user_interventions s' = user_interventions s
       \<and> is_running s' \<and> ready s' \<and> agents s' = agents s
       \<and> medical_context s' = medical_context s \<and> decision_agent s' = decision_agent s
       \<and> status s' = status s
       \<and> current_round s' = (if r # rs = [] then current_round s else last (r # rs))
       \<and> length (model_calls s') = ?n + length (r # rs) * ?k"
    using step ih(1,3,4,5,6,7,8,9) c_log c_cur c_len ag3 fr3 iv3 by simp
  then show ?case by (rule exI)
qed

lemma generate_final_summary_same:
  "discussion_log (snd (generate_final_summary e s)) = discussion_log s"
  "user_interventions (snd (generate_final_summary e s)) = user_interventions s"
  "current_round (snd (generate_final_summary e s)) = current_round s"
  "medical_context (snd (generate_final_summary e s)) = medical_context s"
  "agents (snd (generate_final_summary e s)) = agents s"
  by (simp_all add: generate_final_summary_def Let_def split: option.splits prod.splits)

lemma upto_from_1: "length [1..m] = nat m" "j < nat m \<Longrightarrow> [1..m] ! j = 1 + int j"
  by simp_all

lemma start_discussion_quiet:
  assumes "ready s" and "\<not> user_participation s"
  shows "\<exists>r s'. start_discussion e s = (Complete r, s')
       \<and> result_discussion_log r = discussion_log s @
           map (\<lambda>j. Round (1 + int j)
                  (map (\<lambda>i. Contribution (agents s ! i)
                          (contribution_of (specialty (agent_obj s (agents s ! i)))
                             (llm e (length (model_calls s) + j * length (agents s) + i))))
                     [0 ..< length (agents s)]))
             [0 ..< nat (max_rounds s)]
       \<and> result_user_interventions r = user_interventions s
       \<and> discussion_log s' = result_discussion_log r
       \<and> status s' = Some (ascii ''completed'') \<and> \<not> is_running s'"
proof -
  let ?s0 = "s\<lparr>is_running := True, current_round := 0\<rparr>"
  let ?rs = "[1..max_rounds ?s0]"
  have r0: "ready ?s0" using assms(1) by (simp add: ready_def)
  have up0: "\<not> user_participation ?s0" using assms(2) by simp
  have run0: "is_running ?s0" by simp
  from discussion_rounds_quiet [OF r0 up0 run0, of e ?rs] obtain s1 where
    l: "discussion_rounds e ?rs ?s0 = (None, s1)"
       "discussion_log s1 = discussion_log ?s0 @
           map (\<lambda>j. Round (?rs ! j)
                  (map (\<lambda>i. Contribution (agents ?s0 ! i)
                          (contribution_of (specialty (agent_obj ?s0 (agents ?s0 ! i)))
                             (llm e (length (model_calls ?s0) + j * length (agents ?s0) + i))))
                     [0 ..< length (agents ?s0)]))
             [0 ..< length ?rs]"
       "user_interventions s1 = user_interventions ?s0"
       "is_running s1"
    by blast
  have log1: "discussion_log s1 = discussion_log s @
           map (\<lambda>j. Round (1 + int j)
                  (map (\<lambda>i. Contribution (agents s ! i)
                          (contribution_of (specialty (agent_obj s (agents s ! i)))
                             (llm e (length (model_calls s) + j * length (agents s) + i))))
                     [0 ..< length (agents s)]))
             [0 ..< nat (max_rounds s)]"
    using l(2) by simp
  obtain fs s2 where g: "generate_final_summary e s1 = (fs, s2)"
    by (cases "generate_final_summary e s1") auto
  have same: "discussion_log s2 = discussion_log s1" "user_interventions s2 = user_interventions s1"
    using generate_final_summary_same [of e s1] g by simp_all
  let ?s3 = "s2\<lparr>status := Some (ascii ''completed'')\<rparr>"
  have sd: "start_discussion e s = (Complete (complete_result_of fs ?s3), ?s3\<lparr>is_running := False\<rparr>)"
    using l(1,4) g by (simp add: start_discussion_def Let_def)
  have "start_discussion e s = (Complete (complete_result_of fs ?s3), ?s3\<lparr>is_running := False\<rparr>)
       \<and> result_discussion_log (complete_result_of fs ?s3) = discussion_log s @
           map (\<lambda>j. Round (1 + int j)
                  (map (\<lambda>i. Contribution (agents s ! i)
                          (contribution_of (specialty (agent_obj s (agents s ! i)))
                             (llm e (length (model_calls s) + j * length (agents s) + i))))
                     [0 ..< length (agents s)]))
             [0 ..< nat (max_rounds s)]
       \<and> result_user_interventions (complete_result_of fs ?s3) = user_interventions s
       \<and> discussion_log (?s3\<lparr>is_running := False\<rparr>) = result_discussion_log (complete_result_of fs ?s3)
       \<and> status (?s3\<lparr>is_running := False\<rparr>) = Some (ascii ''completed'')
       \<and> \<not> is_running (?s3\<lparr>is_running := False\<rparr>)"
    using sd same log1 l(3) by (simp add: complete_result_of_def)
  then show ?thesis by blast
qed

lemma discussion_rounds_not_running:
  "\<not> is_running s \<Longrightarrow>
   discussion_rounds e rs s = (None, s\<lparr>current_round := (if rs = [] then current_round s else hd rs)\<rparr>)"
  by (cases rs) (simp_all add: Let_def)

lemma upto_1_Cons: "1 \<le> m \<Longrightarrow> [1..m] = 1 # [2..m]"
  by (simp add: upto_rec1)

lemma upto_2_hd: "[2..m] \<noteq> [] \<Longrightarrow> hd [2..m] = 2" "([2..m] = []) = (m < 2)"
  by (simp_all add: upto_rec1)

subsection \<open>The digest\<close>

lemma round_lines_not_empty: "round_lines r \<noteq> []"
  by (cases r) simp_all

lemma recent_lines_not_empty:
  "rs \<noteq> [] \<Longrightarrow> concat (map round_lines (drop (length rs - 3) rs)) \<noteq> []"
proof -
  assume "rs \<noteq> []"
  then have "0 < length rs" by simp
  then have "length rs - 3 < length rs" by arith
  then have "drop (length rs - 3) rs \<noteq> []" by simp
  then obtain r rest where "drop (length rs - 3) rs = r # rest"
    by (cases "drop (length rs - 3) rs") auto
  then show ?thesis using round_lines_not_empty [of r] by simp
qed

lemma heading_is_not_notice: "summary_heading @ t \<noteq> first_round_notice"
  by (simp add: summary_heading_def first_round_notice_def)

lemma get_current_discussion_context_nonempty:
  "rs \<noteq> [] \<Longrightarrow> get_current_discussion_context rs
     = [(System, summary_heading @ join newline (concat (map round_lines (drop (length rs - 3) rs))))]"
  using recent_lines_not_empty [of rs] by (simp add: get_current_discussion_context_def Let_def)

lemma get_current_discussion_context_empty:
  "get_current_discussion_context [] = [(System, first_round_notice)]"
  by (simp add: get_current_discussion_context_def)

lemma length_ellipsis: "length ellipsis = 3"
  by (simp add: ellipsis_def ascii_def)

subsection \<open>The final summary\<close>

lemma make_final_decision_failure:
  "fst (make_final_decision (Failure err) date rs ctx d) = Decision_failure (Exception err)"
  by (simp add: make_final_decision_def chat_without_history_def Let_def)

lemma generate_final_summary_failed_decision:
  assumes "decision_agent s = Some d" and "medical_context s \<noteq> None"
    and "llm e (length (model_calls s)) = Failure err"
  shows "get_clinical_summary (fst (generate_final_summary e s))
           = Discussion_summary (Decision_failure (Exception err))"
proof -
  obtain fd sent where m: "make_final_decision (Failure err) (current_date e)
                  (discussion_log s) (medical_context s) d = (fd, sent)"
    by (cases "make_final_decision (Failure err) (current_date e)
                  (discussion_log s) (medical_context s) d") auto
  have "fd = Decision_failure (Exception err)"
    using make_final_decision_failure [of err "current_date e" "discussion_log s" "medical_context s" d] m
    by simp
  then show ?thesis
    using assms m by (auto simp add: generate_final_summary_def Let_def)
qed

lemma generate_final_summary_no_decision_agent:
  assumes "decision_agent s = None"
  shows "generate_final_summary e s = (generate_backup_summary s, s)"
  using assms by (simp add: generate_final_summary_def)

lemma start_discussion_quiet_failed_decision:
  assumes "ready s" and "\<not> user_participation s" and "decision_agent s = Some d"
    and "llm e (length (model_calls s) + nat (max_rounds s) * length (agents s)) = Failure err"
  shows "\<exists>res s'. start_discussion e s = (Complete res, s')
       \<and> result_clinical_summary res = Discussion_summary (Decision_failure (Exception err))"
proof -
  let ?s0 = "s\<lparr>is_running := True, current_round := 0\<rparr>"
  let ?rs = "[1..max_rounds ?s0]"
  have r0: "ready ?s0" using assms(1) by (simp add: ready_def)
  have up0: "\<not> user_participation ?s0" using assms(2) by simp
  have run0: "is_running ?s0" by simp
  from discussion_rounds_quiet [OF r0 up0 run0, of e ?rs] obtain s1 where
    l: "discussion_rounds e ?rs ?s0 = (None, s1)" "is_running s1" "ready s1"
       "decision_agent s1 = decision_agent ?s0"
       "length (model_calls s1) = length (model_calls ?s0) + length ?rs * length (agents ?s0)"
    by blast
  have d1: "decision_agent s1 = Some d" using l(4) assms(3) by simp
  have m1: "medical_context s1 \<noteq> None" using l(3) by (simp add: ready_def)
  have f1: "llm e (length (model_calls s1)) = Failure err" using l(5) assms(4) by simp
  note g = generate_final_summary_failed_decision [OF d1 m1 f1]
  obtain fs s2 where gs: "generate_final_summary e s1 = (fs, s2)"
    by (cases "generate_final_summary e s1") auto
  let ?s3 = "s2\<lparr>status := Some (ascii ''completed'')\<rparr>"
  have sd: "start_discussion e s = (Complete (complete_result_of fs ?s3), ?s3\<lparr>is_running := False\<rparr>)"
    using l(1,2) gs by (simp add: start_discussion_def Let_def)
  have "result_clinical_summary (complete_result_of fs ?s3) = Discussion_summary (Decision_failure (Exception err))"
    using g gs by (simp add: complete_result_of_def)
  with sd show ?thesis
    by - (rule exI [where x = "complete_result_of fs ?s3"],
          rule exI [where x = "?s3\<lparr>is_running := False\<rparr>"], simp)
qed

subsection \<open>Turns without a model call by the operator\<close>

lemma system_head_messages:
  "(system_head a = Some c) = (\<exists>rest. messages a = (System, c) # rest)"
  by (auto simp add: system_head_def split: list.splits role.splits prod.splits)

lemma system_head_set_shared_history:
  "system_head a = Some c \<Longrightarrow> messages (set_shared_history h a) = (System, c) # h"
  by (auto simp add: system_head_messages set_shared_history_def)

lemma system_head_update_context:
  "system_head a = Some c \<Longrightarrow> system_head (update_context i a) = Some c"
  by (auto simp add: system_head_messages update_context_def)

lemma analysis_prompt_not_empty: "analysis_prompt_open @ a @ analysis_prompt_close \<noteq> []"
  by (simp add: analysis_prompt_open_def)

lemma analyze_clinical_case_sent:
  assumes "system_head a0 = Some c" and "hist \<noteq> []" and "prompt \<noteq> []"
  shows "snd (snd (analyze_clinical_case outcome med hist prompt a0))
           = Chat ((System, c) # hist @
               [(User, analysis_message (specialty a0) med
                         (format_discussion_history_for_prompt hist) (newline @ prompt))])"
    and "system_head (fst (snd (analyze_clinical_case outcome med hist prompt a0))) = Some c"
proof -
  have m: "messages (set_shared_history hist a0) = (System, c) # hist"
    using assms(1) by (rule system_head_set_shared_history)
  show "snd (snd (analyze_clinical_case outcome med hist prompt a0))
           = Chat ((System, c) # hist @
               [(User, analysis_message (specialty a0) med
                         (format_discussion_history_for_prompt hist) (newline @ prompt))])"
    using assms(2,3) m by (cases outcome) (simp_all add: analyze_clinical_case_def chat_def Let_def)
  show "system_head (fst (snd (analyze_clinical_case outcome med hist prompt a0))) = Some c"
    using assms(2,3) m
    by (cases outcome) (simp_all add: analyze_clinical_case_def chat_def Let_def system_head_messages)
qed

lemma handle_add_information:
  "handle_user_intervention e (Add_information i) s = (False, s') \<Longrightarrow>
   model_calls s' = model_calls s \<and> discussion_log s' = discussion_log s
   \<and> user_interventions s' = user_interventions s @ [Add_information i]
   \<and> additional_info s' = additional_info s @ (if i = [] then [] else [i])
   \<and> (\<forall>b c. system_head (agent_obj s b) = Some c \<longrightarrow> system_head (agent_obj s' b) = Some c)"
  by (auto simp add: record_intervention_def update_all_agents_def update_medical_context_def
        system_head_update_context split: if_splits)

lemma agent_turn_calm:
  assumes rdy: "ready s" and ctx: "medical_context s = Some ctx"
    and hd: "system_head (agent_obj s a) = Some c" and hist: "hist \<noteq> []"
    and calm: "\<not> user_participation s \<or> user_choice e r a = None
               \<or> (\<exists>i. user_choice e r a = Some (Add_information i))"
    and turn: "agent_turn e r hist a es s = (stop, es', s')"
  shows "model_calls s' = model_calls s @
           [(a, Chat ((System, c) # hist @
               [(User, analysis_message (specialty (agent_obj s a)) (medical_record ctx)
                         (format_discussion_history_for_prompt hist)
                         (newline @ analysis_prompt_open @ a @ analysis_prompt_close))]))]
       \<and> discussion_log s' = discussion_log s
       \<and> user_interventions s' = user_interventions s @
            (if user_participation s
             then (case user_choice e r a of None \<Rightarrow> [] | Some iv \<Rightarrow> [iv]) else [])
       \<and> (\<forall>b c. system_head (agent_obj s b) = Some c \<longrightarrow> system_head (agent_obj s' b) = Some c)"
proof -
  let ?s1 = "s\<lparr>agent_obj := (agent_obj s)(a := set_shared_history hist (agent_obj s a))\<rparr>"
  let ?prompt = "analysis_prompt_open @ a @ analysis_prompt_close"
  let ?a0 = "set_shared_history hist (agent_obj s a)"
  let ?req = "Chat ((System, c) # hist @
               [(User, analysis_message (specialty (agent_obj s a)) (medical_record ctx)
                         (format_discussion_history_for_prompt hist) (newline @ ?prompt))])"
  from rdy obtain h where h: "shared_discussion_history s = Some h"
    by (auto simp add: ready_def)
  have hd0: "system_head ?a0 = Some c"
    using system_head_set_shared_history [OF hd, of hist] by (simp add: system_head_messages)
  obtain contribution a2 sent where an:
    "analyze_clinical_case (llm e (length (model_calls s))) (medical_record ctx) hist ?prompt ?a0
       = (contribution, a2, sent)"
    by (cases "analyze_clinical_case (llm e (length (model_calls s))) (medical_record ctx) hist ?prompt ?a0") auto
  have sent: "sent = ?req"
    using analyze_clinical_case_sent(1) [OF hd0 hist analysis_prompt_not_empty,
            of "llm e (length (model_calls s))" "medical_record ctx" a] an
    by simp
  have hd2: "system_head a2 = Some c"
    using analyze_clinical_case_sent(2) [OF hd0 hist analysis_prompt_not_empty,
            of "llm e (length (model_calls s))" "medical_record ctx" a] an
    by simp
  obtain contribution' s2 where aa: "agent_analysis e a (medical_record ctx) hist ?prompt ?s1 = (contribution', s2)"
    by (cases "agent_analysis e a (medical_record ctx) hist ?prompt ?s1") auto
  have s2: "contribution' = contribution" "model_calls s2 = model_calls s @ [(a, ?req)]"
    "discussion_log s2 = discussion_log s" "user_interventions s2 = user_interventions s"
    "shared_discussion_history s2 = Some h"
    "agent_obj s2 = (agent_obj s)(a := a2)"
    using aa an sent h by (auto simp add: agent_analysis_def)
  obtain s3 where add: "add_to_shared_history a (concise_analysis_or_default contribution) s2 = Some s3"
    using s2(5) by (cases "add_to_shared_history a (concise_analysis_or_default contribution) s2")
      (simp_all add: add_to_shared_history_None)
  have s3: "model_calls s3 = model_calls s @ [(a, ?req)]"
    "discussion_log s3 = discussion_log s" "user_interventions s3 = user_interventions s"
    "agent_obj s3 = (agent_obj s)(a := a2)"
    using add_to_shared_history_same [OF add] s2 by simp_all
  have up3: "user_participation s3 = user_participation s"
    using add aa by (auto simp add: add_to_shared_history_def agent_analysis_def split: option.splits prod.splits)
  have heads3: "\<forall>b c. system_head (agent_obj s b) = Some c \<longrightarrow> system_head (agent_obj s3 b) = Some c"
    using hd hd2 s3(4) by simp
  let ?es2 = "es @ [Contribution a contribution]"
  have unfold: "agent_turn e r hist a es s =
      (if user_participation s then
         (case user_choice e r a of
            None \<Rightarrow> (False, ?es2, s3)
          | Some iv \<Rightarrow>
              (case handle_user_intervention e iv s3 of
                 (stp, s4) \<Rightarrow> (if stp \<and> iv \<in> {Interrupt, Skip_round}
                                then (True, ?es2, s4) else (False, ?es2, s4))))
       else (False, ?es2, s3))"
    using ctx aa s2(1) add up3
    by (simp add: agent_turn_def Let_def get_blocking_user_intervention_def)
  show ?thesis
  proof (cases "user_participation s \<and> user_choice e r a \<noteq> None")
    case False
    then have "s' = s3" using unfold turn by (auto split: option.splits)
    then show ?thesis using False s3 heads3 by auto
  next
    case True
    then obtain i where i: "user_choice e r a = Some (Add_information i)"
      using calm by auto
    obtain stp s4 where hd4: "handle_user_intervention e (Add_information i) s3 = (stp, s4)"
      by (cases "handle_user_intervention e (Add_information i) s3") auto
    have nf: "stp = False" using hd4 by (auto split: if_splits)
    have res: "s' = s4" using True i unfold turn hd4 by (auto split: if_splits)
    note ha = handle_add_information [OF hd4 [unfolded nf]]
    have calls: "model_calls s4 = model_calls s3" using ha by blast
    have dlog: "discussion_log s4 = discussion_log s3" using ha by blast
    have ivs: "user_interventions s4 = user_interventions s3 @ [Add_information i]" using ha by blast
    have heads4: "\<forall>b c. system_head (agent_obj s3 b) = Some c \<longrightarrow> system_head (agent_obj s4 b) = Some c"
      using ha by blast
    have c1: "model_calls s' = model_calls s @ [(a, ?req)]" using res calls s3 by simp
    have c2: "discussion_log s' = discussion_log s" using res dlog s3 by simp
    have c3: "user_interventions s' = user_interventions s @
            (if user_participation s
             then (case user_choice e r a of None \<Rightarrow> [] | Some iv \<Rightarrow> [iv]) else [])"
      using res ivs s3 True i by simp
    have c4: "\<forall>b c. system_head (agent_obj s b) = Some c \<longrightarrow> system_head (agent_obj s' b) = Some c"
      using res heads3 heads4 by blast
    from c1 c2 c3 c4 show ?thesis by (intro conjI)
  qed
qed


lemma calm_lets_continue:
  "user_choice e r a = None \<or> (\<exists>i. user_choice e r a = Some (Add_information i))
   \<Longrightarrow> lets_continue e r a"
  by (auto simp add: lets_continue_def)

lemma speak_in_turn_calm:
  assumes "ready s" and "medical_context s = Some ctx" and "\<not> skip_remaining_agents s"
    and "hist \<noteq> []"
    and "\<forall>a \<in> set names. system_head (agent_obj s a) = Some (sys a)"
    and "\<forall>a \<in> set names. user_choice e r a = None
                           \<or> (\<exists>i. user_choice e r a = Some (Add_information i))"
    and "speak_in_turn e r hist names es s = (es', s')"
  shows "es' = es @ map (\<lambda>i. Contribution (names ! i)
                    (contribution_of (specialty (agent_obj s (names ! i)))
                       (llm e (length (model_calls s) + i)))) [0 ..< length names]
       \<and> model_calls s' = model_calls s @
           map (\<lambda>a. (a, Chat ((System, sys a) # hist @
               [(User, analysis_message (specialty (agent_obj s a)) (medical_record ctx)
                         (format_discussion_history_for_prompt hist)
                         (newline @ analysis_prompt_open @ a @ analysis_prompt_close))]))) names
       \<and> discussion_log s' = discussion_log s
       \<and> user_interventions s' = user_interventions s @
            (if user_participation s then List.map_filter (user_choice e r) names else [])
       \<and> (\<forall>b c. system_head (agent_obj s b) = Some c \<longrightarrow> system_head (agent_obj s' b) = Some c)"
  using assms
proof (induction names arbitrary: es s)
  case Nil
  then show ?case by (simp add: List.map_filter_simps)
next
  case (Cons a names)
  let ?req = "\<lambda>s a. (a, Chat ((System, sys a) # hist @
               [(User, analysis_message (specialty (agent_obj s a)) (medical_record ctx)
                         (format_discussion_history_for_prompt hist)
                         (newline @ analysis_prompt_open @ a @ analysis_prompt_close))]))"
  let ?f = "\<lambda>s names i. Contribution (names ! i)
                    (contribution_of (specialty (agent_obj s (names ! i)))
                       (llm e (length (model_calls s) + i)))"
  obtain stop es1 s1 where t: "agent_turn e r hist a es s = (stop, es1, s1)"
    by (cases "agent_turn e r hist a es s") auto
  note at = agent_turn_ready [OF Cons.prems(1) t]
  have es1: "es1 = es @ [?f s (a # names) 0]" using at by simp
  have f1: "frame [a] s s1" using at by blast
  have stop_iff: "stop = (user_participation s \<and> \<not> lets_continue e r a)" using at by blast
  have lc: "lets_continue e r a" using Cons.prems(6) calm_lets_continue [of e r a] by simp
  have ns: "\<not> stop" using stop_iff lc by simp
  have keep: "is_running s1 = is_running s \<and> skip_remaining_agents s1 = skip_remaining_agents s"
    using at ns by blast
  have hda: "system_head (agent_obj s a) = Some (sys a)" using Cons.prems(5) by simp
  have calm_a: "\<not> user_participation s \<or> user_choice e r a = None
               \<or> (\<exists>i. user_choice e r a = Some (Add_information i))"
    using Cons.prems(6) by auto
  note ac = agent_turn_calm [OF Cons.prems(1,2) hda Cons.prems(4) calm_a t]
  have calls1: "model_calls s1 = model_calls s @ [?req s a]" using ac by (rule conjunct1)
  have log1: "discussion_log s1 = discussion_log s" using ac by blast
  have iv1: "user_interventions s1 = user_interventions s @
            (if user_participation s
             then (case user_choice e r a of None \<Rightarrow> [] | Some iv \<Rightarrow> [iv]) else [])"
    using ac by blast
  have heads1: "\<forall>b c. system_head (agent_obj s b) = Some c \<longrightarrow> system_head (agent_obj s1 b) = Some c"
    using ac by blast
  have rec: "speak_in_turn e r hist names es1 s1 = (es', s')"
    using Cons.prems(3,7) t ns by simp
  have r1: "ready s1" using frame_ready [OF f1 Cons.prems(1)] .
  have ctx1: "medical_context s1 = Some ctx" using f1 Cons.prems(2) by (simp add: frame_def)
  have up1: "user_participation s1 = user_participation s" using f1 by (simp add: frame_def)
  have sk1: "\<not> skip_remaining_agents s1" using keep Cons.prems(3) by simp
  have sp1: "\<And>n. specialty (agent_obj s1 n) = specialty (agent_obj s n)"
    using f1 by (simp add: frame_def)
  have hd1: "\<forall>a \<in> set names. system_head (agent_obj s1 a) = Some (sys a)"
    using Cons.prems(5) heads1 by simp
  have calm1: "\<forall>a \<in> set names. user_choice e r a = None
                           \<or> (\<exists>i. user_choice e r a = Some (Add_information i))"
    using Cons.prems(6) by simp
  note ih = Cons.IH [OF r1 ctx1 sk1 Cons.prems(4) hd1 calm1 rec]
  have a1: "es' = es1 @ map (?f s1 names) [0 ..< length names]" using ih by (rule conjunct1)
  have a2: "model_calls s' = model_calls s1 @ map (?req s1) names" using ih by blast
  have a3: "discussion_log s' = discussion_log s1" using ih by blast
  have a4: "user_interventions s' = user_interventions s1 @
            (if user_participation s1 then List.map_filter (user_choice e r) names else [])"
    using ih by blast
  have a5: "\<forall>b c. system_head (agent_obj s1 b) = Some c \<longrightarrow> system_head (agent_obj s' b) = Some c"
    using ih by blast
  have len1: "length (model_calls s1) = Suc (length (model_calls s))" using calls1 by simp
  have tail: "map (?f s1 names) [0 ..< length names] = map (\<lambda>i. ?f s (a # names) (Suc i)) [0 ..< length names]"
    using sp1 len1 by simp
  have whole: "map (?f s (a # names)) [0 ..< length (a # names)]
                 = ?f s (a # names) 0 # map (\<lambda>i. ?f s (a # names) (Suc i)) [0 ..< length names]"
    unfolding length_Cons by (rule upt_0_Suc_map)
  have c1: "es' = es @ map (?f s (a # names)) [0 ..< length (a # names)]"
    unfolding whole a1 tail es1 by simp
  have reqs: "map (?req s1) names = map (?req s) names" using sp1 by simp
  have c2: "model_calls s' = model_calls s @ map (?req s) (a # names)"
    using a2 calls1 reqs by simp
  have c3: "discussion_log s' = discussion_log s" using a3 log1 by simp
  have mf: "List.map_filter (user_choice e r) (a # names)
              = (case user_choice e r a of None \<Rightarrow> [] | Some iv \<Rightarrow> [iv])
                @ List.map_filter (user_choice e r) names"
    by (simp add: List.map_filter_simps split: option.splits)
  have c4: "user_interventions s' = user_interventions s @
            (if user_participation s then List.map_filter (user_choice e r) (a # names) else [])"
    using a4 iv1 up1 mf by simp
  have c5: "\<forall>b c. system_head (agent_obj s b) = Some c \<longrightarrow> system_head (agent_obj s' b) = Some c"
    using heads1 a5 by blast
  from c1 c2 c3 c4 c5 show ?case by (intro conjI)
qed

lemma get_current_discussion_context_not_empty: "get_current_discussion_context rs \<noteq> []"
  by (simp add: get_current_discussion_context_def Let_def)

lemma execute_discussion_round_calm:
  assumes "ready s" and "medical_context s = Some ctx"
    and "\<forall>a \<in> set (agents s). system_head (agent_obj s a) = Some (sys a)"
    and "\<forall>a \<in> set (agents s). user_choice e r a = None
                           \<or> (\<exists>i. user_choice e r a = Some (Add_information i))"
    and "execute_discussion_round e r s = (rl, s')"
  shows "rl = Round r (map (\<lambda>i. Contribution (agents s ! i)
                    (contribution_of (specialty (agent_obj s (agents s ! i)))
                       (llm e (length (model_calls s) + i)))) [0 ..< length (agents s)])
       \<and> model_calls s' = model_calls s @
           map (\<lambda>a. (a, Chat ((System, sys a) # get_current_discussion_context (discussion_log s) @
               [(User, analysis_message (specialty (agent_obj s a)) (medical_record ctx)
                         (format_discussion_history_for_prompt (get_current_discussion_context (discussion_log s)))
                         (newline @ analysis_prompt_open @ a @ analysis_prompt_close))]))) (agents s)
       \<and> discussion_log s' = discussion_log s
       \<and> user_interventions s' = user_interventions s @
            (if user_participation s then List.map_filter (user_choice e r) (agents s) else [])
       \<and> (\<forall>b c. system_head (agent_obj s b) = Some c \<longrightarrow> system_head (agent_obj s' b) = Some c)
       \<and> frame (agents s) s s' \<and> is_running s' = is_running s"
proof -
  let ?s1 = "s\<lparr>skip_remaining_agents := False\<rparr>"
  let ?hist = "get_current_discussion_context (discussion_log ?s1)"
  obtain es s2 where sp: "speak_in_turn e r ?hist (agents ?s1) [] ?s1 = (es, s2)"
    by (cases "speak_in_turn e r ?hist (agents ?s1) [] ?s1") auto
  have res: "rl = Round r es" "s' = s2"
    using assms(5) sp by (simp_all add: execute_discussion_round_def)
  have r1: "ready ?s1" using assms(1) by (simp add: ready_def)
  have c1: "medical_context ?s1 = Some ctx" using assms(2) by simp
  have sk: "\<not> skip_remaining_agents ?s1" by simp
  have hn: "?hist \<noteq> []" by (rule get_current_discussion_context_not_empty)
  have h1: "\<forall>a \<in> set (agents ?s1). system_head (agent_obj ?s1 a) = Some (sys a)"
    using assms(3) by simp
  have cm: "\<forall>a \<in> set (agents ?s1). user_choice e r a = None
                           \<or> (\<exists>i. user_choice e r a = Some (Add_information i))"
    using assms(4) by simp
  note sc = speak_in_turn_calm [OF r1 c1 sk hn h1 cm sp]
  have go: "user_participation s \<longrightarrow> (\<forall>a \<in> set (agents s). lets_continue e r a)"
    using assms(4) calm_lets_continue by blast
  note all = execute_discussion_round_all [OF assms(1) go assms(5)]
  have f: "frame (agents s) s s'" using all by blast
  have run: "is_running s' = is_running s" using all by blast
  have d1: "es = [] @ map (\<lambda>i. Contribution (agents ?s1 ! i)
                    (contribution_of (specialty (agent_obj ?s1 (agents ?s1 ! i)))
                       (llm e (length (model_calls ?s1) + i)))) [0 ..< length (agents ?s1)]"
    using sc by (rule conjunct1)
  have d2: "model_calls s2 = model_calls ?s1 @
           map (\<lambda>a. (a, Chat ((System, sys a) # ?hist @
               [(User, analysis_message (specialty (agent_obj ?s1 a)) (medical_record ctx)
                         (format_discussion_history_for_prompt ?hist)
                         (newline @ analysis_prompt_open @ a @ analysis_prompt_close))]))) (agents ?s1)"
    using sc by blast
  have d3: "discussion_log s2 = discussion_log ?s1" using sc by blast
  have d4: "user_interventions s2 = user_interventions ?s1 @
            (if user_participation ?s1 then List.map_filter (user_choice e r) (agents ?s1) else [])"
    using sc by blast
  have d5: "\<forall>b c. system_head (agent_obj ?s1 b) = Some c \<longrightarrow> system_head (agent_obj s2 b) = Some c"
    using sc by blast
  from d1 d2 d3 d4 d5 f run res show ?thesis by simp
qed

lemma map_filter_all_None:
  "\<forall>x \<in> set xs. f x = None \<Longrightarrow> List.map_filter f xs = []"
  by (induction xs) (simp_all add: List.map_filter_simps)

lemma execute_discussion_round_stop_silent:
  assumes "ready s" and "medical_context s = Some ctx" and "user_participation s"
    and "agents s = pre @ a # post"
    and "\<forall>x \<in> set pre. system_head (agent_obj s x) = Some (sys x)"
    and "\<forall>x \<in> set pre. user_choice e r x = None" and "\<not> lets_continue e r a"
    and "execute_discussion_round e r s = (rl, s')"
  shows "user_interventions s' = user_interventions s \<and> discussion_log s' = discussion_log s"
proof -
  let ?s1 = "s\<lparr>skip_remaining_agents := False\<rparr>"
  let ?hist = "get_current_discussion_context (discussion_log ?s1)"
  obtain es s2 where sp: "speak_in_turn e r ?hist (pre @ a # post) [] ?s1 = (es, s2)"
    by (cases "speak_in_turn e r ?hist (pre @ a # post) [] ?s1") auto
  have res: "s' = s2"
    using assms(4,8) sp by (simp add: execute_discussion_round_def)
  obtain esp sp' where pp: "speak_in_turn e r ?hist pre [] ?s1 = (esp, sp')"
    by (cases "speak_in_turn e r ?hist pre [] ?s1") auto
  have r1: "ready ?s1" using assms(1) by (simp add: ready_def)
  have c1: "medical_context ?s1 = Some ctx" using assms(2) by simp
  have up: "user_participation ?s1" using assms(3) by simp
  have sk: "\<not> skip_remaining_agents ?s1" by simp
  have hn: "?hist \<noteq> []" by (rule get_current_discussion_context_not_empty)
  have h1: "\<forall>x \<in> set pre. system_head (agent_obj ?s1 x) = Some (sys x)"
    using assms(5) by simp
  have cm: "\<forall>x \<in> set pre. user_choice e r x = None
                           \<or> (\<exists>i. user_choice e r x = Some (Add_information i))"
    using assms(6) by simp
  have lc: "\<forall>x \<in> set pre. lets_continue e r x"
    using cm calm_lets_continue by blast
  note sc = speak_in_turn_calm [OF r1 c1 sk hn h1 cm pp]
  have p3: "discussion_log sp' = discussion_log ?s1" using sc by blast
  have p4: "user_interventions sp' = user_interventions ?s1 @
            (if user_participation ?s1 then List.map_filter (user_choice e r) pre else [])"
    using sc by blast
  have p4': "user_interventions sp' = user_interventions s"
    using p4 map_filter_all_None [OF assms(6)] by simp
  note st = speak_in_turn_stop [OF r1 sk up lc assms(7) sp]
  have q1: "user_interventions s2 = user_interventions (snd (speak_in_turn e r ?hist pre [] ?s1))"
    using st by blast
  have q2: "discussion_log s2 = discussion_log (snd (speak_in_turn e r ?hist pre [] ?s1))"
    using st by blast
  from q1 q2 pp p3 p4' res show ?thesis by simp
qed


lemma start_discussion_one_round_skipped:
  assumes "ready s" and "medical_context s = Some ctx" and "user_participation s"
    and "max_rounds s = 1" and "agents s = pre @ a # post"
    and "\<forall>x \<in> set pre. system_head (agent_obj s x) = Some (sys x)"
    and "\<forall>x \<in> set pre. user_choice e 1 x = None"
    and "user_choice e 1 a = Some Skip_round" and "no_pending_input e 1"
  shows "\<exists>res s' es. start_discussion e s = (Complete res, s')
       \<and> result_discussion_log res = discussion_log s @ [Round 1 es]
       \<and> map entry_agent es = pre @ [a]
       \<and> result_user_interventions res = user_interventions s"
proof -
  let ?s0 = "s\<lparr>is_running := True, current_round := 0\<rparr>"
  let ?s1 = "?s0\<lparr>current_round := 1\<rparr>"
  have r1: "ready ?s1" using assms(1) by (simp add: ready_def)
  have c1: "medical_context ?s1 = Some ctx" using assms(2) by simp
  have up1: "user_participation ?s1" using assms(3) by simp
  have ag1: "agents ?s1 = pre @ a # post" using assms(5) by simp
  have h1: "\<forall>x \<in> set pre. system_head (agent_obj ?s1 x) = Some (sys x)" using assms(6) by simp
  have lc: "\<forall>x \<in> set pre. lets_continue e 1 x"
    using assms(7) by (simp add: lets_continue_def)
  have na: "\<not> lets_continue e 1 a" using assms(8) by (simp add: lets_continue_def)
  obtain rl s2 where ex: "execute_discussion_round e 1 ?s1 = (rl, s2)"
    by (cases "execute_discussion_round e 1 ?s1") auto
  note st = execute_discussion_round_stop [OF r1 up1 ag1 lc na ex]
  note si = execute_discussion_round_stop_silent [OF r1 c1 up1 ag1 h1 assms(7) na ex]
  from st obtain es where es: "rl = Round 1 es" "map entry_agent es = pre @ [a]"
    by blast
  have f: "frame (pre @ [a]) ?s1 s2" using st by blast
  have run2: "is_running s2" using st assms(8) by simp
  have same2: "user_interventions s2 = user_interventions s" "discussion_log s2 = discussion_log s"
    using si by simp_all
  let ?s3 = "s2\<lparr>discussion_log := discussion_log s2 @ [rl]\<rparr>"
  have up3: "user_participation ?s3" "current_round ?s3 = 1"
    using f up1 by (simp_all add: frame_def)
  have nochk: "\<not> check_user_intervention e ?s3"
    using up3 assms(9) by (simp add: check_user_intervention_def no_pending_input_def split: option.splits)
  have one: "[1..max_rounds ?s0] = [1]" using assms(4) by (simp add: upto_rec1)
  have loop: "discussion_rounds e [1..max_rounds ?s0] ?s0 = (None, ?s3)"
    unfolding one using ex nochk by (simp add: Let_def)
  have run3: "is_running ?s3" using run2 by simp
  obtain fs s4 where g: "generate_final_summary e ?s3 = (fs, s4)"
    by (cases "generate_final_summary e ?s3") auto
  have same4: "discussion_log s4 = discussion_log ?s3" "user_interventions s4 = user_interventions ?s3"
    using generate_final_summary_same [of e ?s3] g by simp_all
  let ?s5 = "s4\<lparr>status := Some (ascii ''completed'')\<rparr>"
  have sd: "start_discussion e s = (Complete (complete_result_of fs ?s5), ?s5\<lparr>is_running := False\<rparr>)"
    using loop run3 g by (simp add: start_discussion_def Let_def)
  have "start_discussion e s = (Complete (complete_result_of fs ?s5), ?s5\<lparr>is_running := False\<rparr>)
       \<and> result_discussion_log (complete_result_of fs ?s5) = discussion_log s @ [Round 1 es]
       \<and> map entry_agent es = pre @ [a]
       \<and> result_user_interventions (complete_result_of fs ?s5) = user_interventions s"
    using sd same4 same2 es by (simp add: complete_result_of_def)
  then show ?thesis
    by - (rule exI [where x = "complete_result_of fs ?s5"],
          rule exI [where x = "?s5\<lparr>is_running := False\<rparr>"], rule exI [where x = es], assumption)
qed

subsection \<open>Two rounds without a skip or an interrupt, and what the requests hold\<close>

lemma generate_final_summary_calls:
  assumes "decision_agent s = Some d"
  shows "model_calls (snd (generate_final_summary e s)) = model_calls s @
           [(ascii ''DecisionMaker'',
             snd (make_final_decision (llm e (length (model_calls s))) (current_date e)
                    (discussion_log s) (medical_context s) d))]"
  using assms by (simp add: generate_final_summary_def Let_def split: prod.splits)

lemma start_discussion_two_calm_rounds:
  assumes "ready s" and "medical_context s = Some ctx" and "max_rounds s = 2"
    and "\<forall>a \<in> set (agents s). system_head (agent_obj s a) = Some (sys a)"
    and "\<forall>a \<in> set (agents s). user_choice e 1 a = None
                           \<or> (\<exists>i. user_choice e 1 a = Some (Add_information i))"
    and "\<forall>a \<in> set (agents s). user_choice e 2 a = None
                           \<or> (\<exists>i. user_choice e 2 a = Some (Add_information i))"
    and "no_pending_input e 1" and "no_pending_input e 2"
    and "decision_agent s = Some d"
    and "row1 = Round 1 (map (\<lambda>i. Contribution (agents s ! i)
                    (contribution_of (specialty (agent_obj s (agents s ! i)))
                       (llm e (length (model_calls s) + i)))) [0 ..< length (agents s)])"
    and "row2 = Round 2 (map (\<lambda>i. Contribution (agents s ! i)
                    (contribution_of (specialty (agent_obj s (agents s ! i)))
                       (llm e (length (model_calls s) + length (agents s) + i)))) [0 ..< length (agents s)])"
  shows "\<exists>res s'. start_discussion e s = (Complete res, s')
       \<and> result_discussion_log res = discussion_log s @ [row1, row2]
       \<and> result_user_interventions res = user_interventions s @
            (if user_participation s
             then List.map_filter (user_choice e 1) (agents s) @ List.map_filter (user_choice e 2) (agents s)
             else [])
       \<and> model_calls s' = model_calls s
           @ map (\<lambda>a. (a, Chat ((System, sys a) # get_current_discussion_context (discussion_log s) @
               [(User, analysis_message (specialty (agent_obj s a)) (medical_record ctx)
                         (format_discussion_history_for_prompt (get_current_discussion_context (discussion_log s)))
                         (newline @ analysis_prompt_open @ a @ analysis_prompt_close))]))) (agents s)
           @ map (\<lambda>a. (a, Chat ((System, sys a) # get_current_discussion_context (discussion_log s @ [row1]) @
               [(User, analysis_message (specialty (agent_obj s a)) (medical_record ctx)
                         (format_discussion_history_for_prompt (get_current_discussion_context (discussion_log s @ [row1])))
                         (newline @ analysis_prompt_open @ a @ analysis_prompt_close))]))) (agents s)
           @ [(ascii ''DecisionMaker'',
               snd (make_final_decision (llm e (length (model_calls s) + 2 * length (agents s)))
                      (current_date e) (discussion_log s @ [row1, row2]) (Some ctx) d))]"
proof -
  let ?k = "length (agents s)"
  let ?n = "length (model_calls s)"
  let ?req = "\<lambda>lg a. (a, Chat ((System, sys a) # get_current_discussion_context lg @
               [(User, analysis_message (specialty (agent_obj s a)) (medical_record ctx)
                         (format_discussion_history_for_prompt (get_current_discussion_context lg))
                         (newline @ analysis_prompt_open @ a @ analysis_prompt_close))]))"
  let ?s0 = "s\<lparr>is_running := True, current_round := 0\<rparr>"
  let ?s1 = "?s0\<lparr>current_round := 1\<rparr>"
  have r1: "ready ?s1" using assms(1) by (simp add: ready_def)
  have c1: "medical_context ?s1 = Some ctx" using assms(2) by simp
  have h1: "\<forall>a \<in> set (agents ?s1). system_head (agent_obj ?s1 a) = Some (sys a)" using assms(4) by simp
  have m1: "\<forall>a \<in> set (agents ?s1). user_choice e 1 a = None
                           \<or> (\<exists>i. user_choice e 1 a = Some (Add_information i))" using assms(5) by simp
  obtain rl1 s2 where ex1: "execute_discussion_round e 1 ?s1 = (rl1, s2)"
    by (cases "execute_discussion_round e 1 ?s1") auto
  note e1 = execute_discussion_round_calm [OF r1 c1 h1 m1 ex1]
  have rl1: "rl1 = row1" using e1 assms(10) by simp
  have calls2: "model_calls s2 = model_calls s @ map (?req (discussion_log s)) (agents s)"
    using e1 by simp
  have log2: "discussion_log s2 = discussion_log s" using e1 by simp
  have iv2: "user_interventions s2 = user_interventions s @
            (if user_participation s then List.map_filter (user_choice e 1) (agents s) else [])"
    using e1 by simp
  have heads2: "\<forall>b c. system_head (agent_obj ?s1 b) = Some c \<longrightarrow> system_head (agent_obj s2 b) = Some c"
    using e1 by blast
  have f2: "frame (agents ?s1) ?s1 s2" using e1 by blast
  have run2: "is_running s2" using e1 by simp
  let ?s3 = "s2\<lparr>discussion_log := discussion_log s2 @ [rl1]\<rparr>"
  have fr3: "agents ?s3 = agents s" "user_participation ?s3 = user_participation s"
    "medical_context ?s3 = Some ctx" "current_round ?s3 = 1" "decision_agent ?s3 = Some d"
    "\<And>n. specialty (agent_obj ?s3 n) = specialty (agent_obj s n)"
    using f2 assms(2,9) by (simp_all add: frame_def)
  have nochk3: "\<not> check_user_intervention e ?s3"
    using fr3 assms(7) by (simp add: check_user_intervention_def no_pending_input_def split: option.splits)
  let ?s4 = "?s3\<lparr>current_round := 2\<rparr>"
  have r4: "ready ?s4" using frame_ready [OF f2 r1] by (simp add: ready_def)
  have c4: "medical_context ?s4 = Some ctx" using fr3 by simp
  have h4: "\<forall>a \<in> set (agents ?s4). system_head (agent_obj ?s4 a) = Some (sys a)"
    using assms(4) heads2 fr3(1) by simp
  have m4: "\<forall>a \<in> set (agents ?s4). user_choice e 2 a = None
                           \<or> (\<exists>i. user_choice e 2 a = Some (Add_information i))"
    using assms(6) fr3(1) by simp
  obtain rl2 s5 where ex2: "execute_discussion_round e 2 ?s4 = (rl2, s5)"
    by (cases "execute_discussion_round e 2 ?s4") auto
  note e2 = execute_discussion_round_calm [OF r4 c4 h4 m4 ex2]
  have len4: "length (model_calls ?s4) = ?n + ?k" using calls2 by simp
  have rl2: "rl2 = row2"
    using e2 assms(11) fr3(1,6) len4 by simp
  have calls5: "model_calls s5 = model_calls ?s4 @ map (?req (discussion_log s @ [row1])) (agents s)"
    using e2 fr3(1,6) log2 rl1 by simp
  have log5: "discussion_log s5 = discussion_log s @ [row1]" using e2 log2 rl1 by simp
  have iv5: "user_interventions s5 = user_interventions s2 @
            (if user_participation s then List.map_filter (user_choice e 2) (agents s) else [])"
    using e2 fr3(1,2) by simp
  have f5: "frame (agents ?s4) ?s4 s5" using e2 by blast
  have run5: "is_running s5" using e2 run2 by simp
  let ?s6 = "s5\<lparr>discussion_log := discussion_log s5 @ [rl2]\<rparr>"
  have fr6: "user_participation ?s6 = user_participation s" "current_round ?s6 = 2"
    "decision_agent ?s6 = Some d" "medical_context ?s6 = Some ctx"
    using f5 fr3 by (simp_all add: frame_def)
  have nochk6: "\<not> check_user_intervention e ?s6"
    using fr6 assms(8) by (simp add: check_user_intervention_def no_pending_input_def split: option.splits)
  have two: "[1..max_rounds ?s0] = [1, 2]" using assms(3) by (simp add: upto_rec1)
  have loop: "discussion_rounds e [1..max_rounds ?s0] ?s0 = (None, ?s6)"
    unfolding two using ex1 nochk3 run2 ex2 nochk6 by (simp add: Let_def)
  have run6: "is_running ?s6" using run5 by simp
  obtain fs s7 where g: "generate_final_summary e ?s6 = (fs, s7)"
    by (cases "generate_final_summary e ?s6") auto
  have same7: "discussion_log s7 = discussion_log ?s6" "user_interventions s7 = user_interventions ?s6"
    using generate_final_summary_same [of e ?s6] g by simp_all
  have calls6: "model_calls ?s6 = model_calls s @ map (?req (discussion_log s)) (agents s)
                   @ map (?req (discussion_log s @ [row1])) (agents s)"
    using calls5 calls2 by simp
  have len6: "length (model_calls ?s6) = ?n + 2 * ?k" using calls6 by simp
  have log6: "discussion_log ?s6 = discussion_log s @ [row1, row2]" using log5 rl2 by simp
  have calls7: "model_calls s7 = model_calls ?s6 @
           [(ascii ''DecisionMaker'',
             snd (make_final_decision (llm e (?n + 2 * ?k)) (current_date e)
                    (discussion_log s @ [row1, row2]) (Some ctx) d))]"
    using generate_final_summary_calls [OF fr6(3), of e] g len6 log6 fr6(4) by simp
  let ?s8 = "s7\<lparr>status := Some (ascii ''completed'')\<rparr>"
  have sd: "start_discussion e s = (Complete (complete_result_of fs ?s8), ?s8\<lparr>is_running := False\<rparr>)"
    using loop run6 g by (simp add: start_discussion_def Let_def)
  have ivs: "user_interventions ?s6 = user_interventions s @
            (if user_participation s
             then List.map_filter (user_choice e 1) (agents s) @ List.map_filter (user_choice e 2) (agents s)
             else [])"
    using iv5 iv2 by simp
  have "start_discussion e s = (Complete (complete_result_of fs ?s8), ?s8\<lparr>is_running := False\<rparr>)
       \<and> result_discussion_log (complete_result_of fs ?s8) = discussion_log s @ [row1, row2]
       \<and> result_user_interventions (complete_result_of fs ?s8) = user_interventions s @
            (if user_participation s
             then List.map_filter (user_choice e 1) (agents s) @ List.map_filter (user_choice e 2) (agents s)
             else [])
       \<and> model_calls (?s8\<lparr>is_running := False\<rparr>) = model_calls s
           @ map (?req (discussion_log s)) (agents s)
           @ map (?req (discussion_log s @ [row1])) (agents s)
           @ [(ascii ''DecisionMaker'',
               snd (make_final_decision (llm e (?n + 2 * ?k))
                      (current_date e) (discussion_log s @ [row1, row2]) (Some ctx) d))]"
    using sd same7 log6 ivs calls7 calls6 by (simp add: complete_result_of_def)
  then show ?thesis
    by - (rule exI [where x = "complete_result_of fs ?s8"],
          rule exI [where x = "?s8\<lparr>is_running := False\<rparr>"], assumption)
qed

text \<open>
  A character that occurs in none of the texts a request is built from does not occur in
  the request, and so no text that begins with it does. The fixed wording holds no
  \<open>K\<close> (code point 75).
\<close>

lemma not_contains: "k \<notin> set t \<Longrightarrow> \<not> contains t (k # ps)"
  by (induction t) auto

lemma not_mentions_Chat: "\<forall>m \<in> set msgs. k \<notin> set (snd m) \<Longrightarrow> \<not> mentions (Chat msgs) (k # ps)"
  by (auto simp add: list_ex_iff not_contains)

lemma set_join_subset: "set (join sep xs) \<subseteq> set sep \<union> \<Union> (set ` set xs)"
  by (induction sep xs rule: join.induct) auto

lemma K_not_in_analysis_message:
  "75 \<notin> set spec \<Longrightarrow> 75 \<notin> set med \<Longrightarrow> 75 \<notin> set fmt \<Longrightarrow> 75 \<notin> set sec \<Longrightarrow>
   75 \<notin> set (analysis_message spec med fmt sec)"
  by (simp add: analysis_message_def analysis_message_1_def analysis_message_2_def
        analysis_message_3_def analysis_message_4_def analysis_message_5_def analysis_message_6_def)

lemma K_not_in_decision_message:
  "75 \<notin> set date \<Longrightarrow> 75 \<notin> set (medical_record ctx) \<Longrightarrow> 75 \<notin> set (question ctx) \<Longrightarrow>
   \<forall>t \<in> set analyses. 75 \<notin> set t \<Longrightarrow>
   75 \<notin> set (build_decision_message date (Some ctx) analyses)"
  using set_join_subset [of newline analyses]
  by (auto simp add: build_decision_message_def decision_message_1_def decision_message_2_def
        decision_message_3_def decision_message_4_def decision_message_5_def newline_def)

lemma K_not_in_wording:
  "75 \<notin> set first_round_notice" "75 \<notin> set summary_heading" "75 \<notin> set round_label_open"
  "75 \<notin> set round_label_close" "75 \<notin> set analysis_prompt_open" "75 \<notin> set analysis_prompt_close"
  "75 \<notin> set newline" "75 \<notin> set indent" "75 \<notin> set colon_space" "75 \<notin> set ellipsis"
  by (simp_all add: first_round_notice_def summary_heading_def round_label_open_def
        round_label_close_def analysis_prompt_open_def analysis_prompt_close_def newline_def
        indent_def colon_space_def ellipsis_def ascii_def)

lemma fine_is_concise: "make_response_concise (ascii ''fine'') = ascii ''fine''"
  by (simp add: make_response_concise_def str_split_def isspace_def ascii_def)

lemma set_str_nat: "set (str_nat n) \<subseteq> {48 .. 57}"
proof (induction n rule: str_nat.induct)
  case (1 n)
  show ?case
  proof (cases "n < 10")
    case True
    then show ?thesis by (simp add: str_nat.simps [of n])
  next
    case False
    have "n mod 10 < 10" by simp
    then have "48 + n mod 10 \<in> {48 .. 57}" by simp
    with False 1 show ?thesis by (simp add: str_nat.simps [of n])
  qed
qed

lemma K_not_in_str_nat: "75 \<notin> set (str_nat n)"
  using set_str_nat [of n] by auto

lemma K_not_in_str_int: "75 \<notin> set (str_int i)"
  by (simp add: str_int_def K_not_in_str_nat)

lemma K_not_in_format: "75 \<notin> set (format_discussion_history_for_prompt h)"
proof -
  let ?labels = "map (\<lambda>i. round_label_open @ str_nat i @ round_label_close) [1 ..< Suc (min 6 (length h))]"
  have "\<forall>t \<in> set ?labels. 75 \<notin> set t"
    by (auto simp add: K_not_in_wording K_not_in_str_nat)
  then have "75 \<notin> set (join newline ?labels)"
    using set_join_subset [of newline ?labels] K_not_in_wording(7) by blast
  then show ?thesis
    by (simp add: format_discussion_history_for_prompt_def Let_def no_discussion_history_def
          no_related_discussion_history_def)
qed

lemma K_not_in_contribution_line:
  "75 \<notin> set agent \<Longrightarrow> 75 \<notin> set body \<Longrightarrow> \<forall>t \<in> set (contribution_line agent body). 75 \<notin> set t"
  by (auto simp add: contribution_line_def shorten_def K_not_in_wording dest: in_set_takeD)

lemma K_not_in_round_lines:
  assumes "\<forall>x \<in> set (contributions r). 75 \<notin> set (entry_agent x)
             \<and> 75 \<notin> set (entry_analysis x) \<and> 75 \<notin> set (entry_response x)"
  shows "\<forall>t \<in> set (round_lines r). 75 \<notin> set t"
proof (cases r)
  case (Round n es)
  then show ?thesis
    using assms K_not_in_contribution_line
    by (auto simp add: K_not_in_wording K_not_in_str_int simp del: entry_analysis.simps)
next
  case (Broadcast_round n q es)
  then show ?thesis
    using assms K_not_in_contribution_line
    by (auto simp add: broadcast_round_label_def simp del: entry_response.simps)
qed

lemma K_not_in_digest:
  assumes "\<forall>r \<in> set rs. \<forall>x \<in> set (contributions r). 75 \<notin> set (entry_agent x)
             \<and> 75 \<notin> set (entry_analysis x) \<and> 75 \<notin> set (entry_response x)"
  shows "\<forall>m \<in> set (get_current_discussion_context rs). 75 \<notin> set (snd m)"
proof -
  let ?lines = "concat (map round_lines (drop (length rs - 3) rs))"
  have "\<forall>t \<in> set ?lines. 75 \<notin> set t"
  proof
    fix t assume "t \<in> set ?lines"
    then obtain r where r: "r \<in> set (drop (length rs - 3) rs)" "t \<in> set (round_lines r)" by auto
    then have "r \<in> set rs" by (meson in_set_dropD)
    then show "75 \<notin> set t" using assms K_not_in_round_lines [of r] r(2) by blast
  qed
  then have "75 \<notin> set (join newline ?lines)"
    using set_join_subset [of newline ?lines] K_not_in_wording(7) by blast
  then show ?thesis
    by (simp add: get_current_discussion_context_def Let_def K_not_in_wording)
qed

lemma K_not_in_successful_analysis:
  "75 \<notin> set (entry_agent x) \<Longrightarrow> 75 \<notin> set (entry_analysis x) \<Longrightarrow>
   \<forall>t \<in> set (successful_analysis x). 75 \<notin> set t"
  by (cases x rule: successful_analysis.cases) (simp_all add: K_not_in_wording)

lemma K_not_in_request:
  assumes "75 \<notin> set c" and "\<forall>m \<in> set hist. 75 \<notin> set (snd m)"
    and "75 \<notin> set spec" and "75 \<notin> set med" and "75 \<notin> set a"
  shows "\<not> mentions (Chat ((System, c) # hist @
               [(User, analysis_message spec med (format_discussion_history_for_prompt hist)
                         (newline @ analysis_prompt_open @ a @ analysis_prompt_close))])) (75 # ps)"
proof -
  have "75 \<notin> set (newline @ analysis_prompt_open @ a @ analysis_prompt_close)"
    using assms(5) by (simp add: K_not_in_wording)
  then have "75 \<notin> set (analysis_message spec med (format_discussion_history_for_prompt hist)
                         (newline @ analysis_prompt_open @ a @ analysis_prompt_close))"
    using K_not_in_analysis_message [OF assms(3,4) K_not_in_format] by blast
  then show ?thesis
    using assms(1,2) by (intro not_mentions_Chat) auto
qed

lemma K_not_in_decision_request:
  assumes "75 \<notin> set (system_instruction d)" and "75 \<notin> set date"
    and "75 \<notin> set (medical_record ctx)" and "75 \<notin> set (question ctx)"
    and "\<forall>r \<in> set rs. \<forall>x \<in> set (contributions r). 75 \<notin> set (entry_agent x)
             \<and> 75 \<notin> set (entry_analysis x) \<and> 75 \<notin> set (entry_response x)"
  shows "\<not> mentions (snd (make_final_decision outcome date rs (Some ctx) d)) (75 # ps)"
proof -
  let ?an = "concat (map (\<lambda>round_log. concat (map successful_analysis (contributions round_log))) rs)"
  let ?msg = "build_decision_message date (Some ctx) ?an"
  have an: "\<forall>t \<in> set ?an. 75 \<notin> set t"
  proof
    fix t assume "t \<in> set ?an"
    then obtain r x where rx: "r \<in> set rs" "x \<in> set (contributions r)"
        "t \<in> set (successful_analysis x)"
      by auto
    from assms(5) rx(1,2) have a: "75 \<notin> set (entry_agent x)" and b: "75 \<notin> set (entry_analysis x)"
      by blast+
    from K_not_in_successful_analysis [OF a b] rx(3) show "75 \<notin> set t" by (rule bspec)
  qed
  have m: "75 \<notin> set ?msg"
    by (rule K_not_in_decision_message [OF assms(2,3,4) an])
  have req: "snd (make_final_decision outcome date rs (Some ctx) d)
          = Chat [(System, system_instruction d), (User, ?msg)]"
    by (cases outcome) (simp_all add: make_final_decision_def chat_without_history_def Let_def)
  have "\<forall>m \<in> set [(System, system_instruction d), (User, ?msg)]. 75 \<notin> set (snd m)"
    using m assms(1) by simp
  then have "\<not> mentions (Chat [(System, system_instruction d), (User, ?msg)]) (75 # ps)"
    by (rule not_mentions_Chat)
  then show ?thesis unfolding req .
qed

lemma K_not_in_calm_row:
  assumes "\<forall>a \<in> set names. 75 \<notin> set a"
  shows "\<forall>x \<in> set (map (\<lambda>i. Contribution (names ! i) (contribution_of (spec i) (Reply (ascii ''fine''))))
                      [0 ..< length names]).
           75 \<notin> set (entry_agent x) \<and> 75 \<notin> set (entry_analysis x) \<and> 75 \<notin> set (entry_response x)"
proof -
  have "75 \<notin> set (make_response_concise (ascii ''fine''))"
    unfolding fine_is_concise by (simp add: ascii_def)
  with assms show ?thesis by auto
qed

text \<open>What \<open>update_context\<close> appends to the messages of an agent holds the information.\<close>

lemma starts_with_append: "starts_with (needle @ post) needle"
  by (induction needle) simp_all

lemma contains_append: "contains (pre @ needle @ post) needle"
proof (induction pre)
  case Nil
  show ?case
  proof (cases "needle @ post")
    case Nil
    then show ?thesis by simp
  next
    case (Cons c cs)
    have "starts_with (needle @ post) needle" by (rule starts_with_append)
    then show ?thesis using Cons by simp
  qed
next
  case (Cons c pre)
  then show ?case by simp
qed

lemma update_context_mentions:
  "list_ex (\<lambda>m. contains (snd m) info) (messages (update_context info a))"
proof -
  have "contains ((context_update_1 @ general_description @ context_update_2) @ info @ context_update_3) info"
    by (rule contains_append)
  then show ?thesis by (simp add: update_context_def)
qed
subsection \<open>The worked discussion\<close>

lemma demo_engine_eq:
  "demo_engine =
     \<lparr>is_running = False, current_round = 0, max_rounds = 2,
      skip_remaining_agents = False, user_participation = False, discussion_log = [],
      user_interventions = [],
      medical_context = Some \<lparr>medical_record = ascii ''case'', question = ascii ''what now'',
         selected_agents = [ascii ''A'', ascii ''B'', ascii ''C''], case_user_id = ascii ''u1''\<rparr>,
      additional_info = [], status = None,
      agents = [ascii ''A'', ascii ''B'', ascii ''C''],
      agent_obj = (\<lambda>n. new_agent [] [])
         (ascii ''A'' := new_agent (ascii ''A'') (ascii ''specialist''),
          ascii ''B'' := new_agent (ascii ''B'') (ascii ''specialist''),
          ascii ''C'' := new_agent (ascii ''C'') (ascii ''specialist'')),
      decision_agent = Some (new_agent (ascii ''decision'') (ascii ''decide'')),
      shared_discussion_history = Some [], model_calls = []\<rparr>"
  by (simp add: demo_engine_def initialize_discussion_def new_engine_def demo_registry_def ascii_def)

lemma demo_engine_facts:
  "ready demo_engine" "\<not> user_participation demo_engine" "max_rounds demo_engine = 2"
  "agents demo_engine = [ascii ''A'', ascii ''B'', ascii ''C'']"
  "discussion_log demo_engine = []" "model_calls demo_engine = []"
  "user_interventions demo_engine = []"
  "decision_agent demo_engine = Some (new_agent (ascii ''decision'') (ascii ''decide''))"
  by (simp_all add: demo_engine_eq ready_def)


lemma map_entry_agent_row:
  "map entry_agent (map (\<lambda>i. Contribution (names ! i) (f i)) [0 ..< length names]) = names"
  by (simp add: o_def map_nth)

lemma demo_engine_interactive_facts:
  "ready demo_engine_interactive" "user_participation demo_engine_interactive"
  "max_rounds demo_engine_interactive = 2"
  "agents demo_engine_interactive = [ascii ''A'', ascii ''B'', ascii ''C'']"
  "discussion_log demo_engine_interactive = []" "model_calls demo_engine_interactive = []"
  "user_interventions demo_engine_interactive = []"
  "distinct (agents demo_engine_interactive)"
  by (simp_all add: demo_engine_interactive_def demo_engine_eq ready_def ascii_def)

lemma demo_choice_facts:
  "lets_continue (demo_env (choice_at 1 (ascii ''B'') iv)) 1 (ascii ''A'')"
  "user_choice (demo_env (choice_at 1 (ascii ''B'') iv)) 1 (ascii ''B'') = Some iv"
  "no_pending_input (demo_env c) r"
  by (simp_all add: lets_continue_def demo_env_def choice_at_def ascii_def no_pending_input_def
        cli_interface_def)

lemma demo_engine_one_round_facts:
  "ready demo_engine_one_round" "user_participation demo_engine_one_round"
  "max_rounds demo_engine_one_round = 1"
  "agents demo_engine_one_round = [ascii ''A''] @ ascii ''B'' # [ascii ''C'']"
  "discussion_log demo_engine_one_round = []"
  "user_interventions demo_engine_one_round = []"
  "medical_context demo_engine_one_round = Some \<lparr>medical_record = ascii ''case'',
         question = ascii ''what now'',
         selected_agents = [ascii ''A'', ascii ''B'', ascii ''C''], case_user_id = ascii ''u1''\<rparr>"
  "system_head (agent_obj demo_engine_one_round (ascii ''A'')) = Some (ascii ''specialist'')"
  by (simp_all add: demo_engine_one_round_def demo_engine_interactive_def demo_engine_eq ready_def
        system_head_def new_agent_def ascii_def)

lemma demo_engine_interactive_agents:
  "medical_context demo_engine_interactive = Some \<lparr>medical_record = ascii ''case'',
         question = ascii ''what now'',
         selected_agents = [ascii ''A'', ascii ''B'', ascii ''C''], case_user_id = ascii ''u1''\<rparr>"
  "decision_agent demo_engine_interactive = Some (new_agent (ascii ''decision'') (ascii ''decide''))"
  "\<forall>a \<in> set (agents demo_engine_interactive).
      system_head (agent_obj demo_engine_interactive a) = Some ((\<lambda>a. ascii ''specialist'') a)"
  "\<forall>a \<in> set (agents demo_engine_interactive).
      specialty (agent_obj demo_engine_interactive a) = a"
  by (simp_all add: demo_engine_interactive_def demo_engine_eq system_head_def new_agent_def ascii_def)

lemma calm_env_facts:
  "llm (calm_env c) n = Reply (ascii ''fine'')" "user_choice (calm_env c) = c"
  "current_date (calm_env c) = ascii ''2025''" "no_pending_input (calm_env c) r"
  by (simp_all add: calm_env_def no_pending_input_def cli_interface_def)

lemma set_shared_history_forgets:
  "\<not> list_ex (\<lambda>m. contains (snd m) (ascii ''K+ 6.1''))
        (messages (set_shared_history (get_current_discussion_context [])
           (update_context (ascii ''K+ 6.1'') (new_agent (ascii ''A'') (ascii ''specialist'')))))"
proof -
  have K: "ascii ''K+ 6.1'' = 75 # [43, 32, 54, 46, 49]" by (simp add: ascii_def)
  have a: "\<not> contains (ascii ''specialist'') (75 # [43, 32, 54, 46, 49])"
    by (rule not_contains) (simp add: ascii_def)
  have b: "\<not> contains first_round_notice (75 # [43, 32, 54, 46, 49])"
    by (rule not_contains) (rule K_not_in_wording(1))
  have m: "messages (set_shared_history (get_current_discussion_context [])
           (update_context (ascii ''K+ 6.1'') (new_agent (ascii ''A'') (ascii ''specialist''))))
         = [(System, ascii ''specialist''), (System, first_round_notice)]"
    by (simp add: set_shared_history_def update_context_def new_agent_def
          get_current_discussion_context_empty)
  show ?thesis unfolding m using a b by (simp add: K)
qed
subsection \<open>The claims about the scheduler\<close>

text \<open>
  Claim C1. An initialised engine with intervention mode off, \<open>max_rounds = 2\<close> and
  three participants: \<open>start_discussion\<close> returns the complete result; what it adds to
  the round log is round 1 and round 2 and nothing else, each with exactly three
  entries, one contribution per participant in their order; and the engine ends with
  status \<open>completed\<close> in its context, no longer running. On a new engine the log starts
  empty, so the log of the result is these two rounds, six contributions in all.
\<close>

theorem start_discussion_two_rounds_of_three:
  assumes "ready s" and "\<not> user_participation s"
    and "max_rounds s = 2" and "length (agents s) = 3"
  shows "\<exists>r s' es1 es2. start_discussion e s = (Complete r, s')
       \<and> result_discussion_log r = discussion_log s @ [Round 1 es1, Round 2 es2]
       \<and> length es1 = 3 \<and> length es2 = 3
       \<and> map entry_agent es1 = agents s \<and> map entry_agent es2 = agents s
       \<and> (\<forall>x \<in> set (es1 @ es2). \<exists>a c. x = Contribution a c)
       \<and> discussion_log s' = result_discussion_log r
       \<and> status s' = Some (ascii ''completed'') \<and> \<not> is_running s'"
proof -
  let ?row = "\<lambda>j. map (\<lambda>i. Contribution (agents s ! i)
                          (contribution_of (specialty (agent_obj s (agents s ! i)))
                             (llm e (length (model_calls s) + j * length (agents s) + i))))
                     [0 ..< length (agents s)]"
  from start_discussion_quiet [OF assms(1,2), of e] obtain r s' where
    q: "start_discussion e s = (Complete r, s')"
       "result_discussion_log r = discussion_log s @ map (\<lambda>j. Round (1 + int j) (?row j)) [0 ..< nat (max_rounds s)]"
       "discussion_log s' = result_discussion_log r"
       "status s' = Some (ascii ''completed'')" "\<not> is_running s'"
    by blast
  have two: "[0 ..< nat (max_rounds s)] = [0, 1]"
    using assms(3) by (simp add: upt_rec)
  have rlog: "result_discussion_log r = discussion_log s @ [Round 1 (?row 0), Round 2 (?row 1)]"
    unfolding q(2) two by simp
  have len: "length (?row 0) = 3" "length (?row 1) = 3" using assms(4) by simp_all
  have ag: "map entry_agent (?row 0) = agents s" "map entry_agent (?row 1) = agents s"
    by (rule map_entry_agent_row)+
  have co: "\<forall>x \<in> set (?row 0 @ ?row 1). \<exists>a c. x = Contribution a c" by auto
  have "start_discussion e s = (Complete r, s')
       \<and> result_discussion_log r = discussion_log s @ [Round 1 (?row 0), Round 2 (?row 1)]
       \<and> length (?row 0) = 3 \<and> length (?row 1) = 3
       \<and> map entry_agent (?row 0) = agents s \<and> map entry_agent (?row 1) = agents s
       \<and> (\<forall>x \<in> set (?row 0 @ ?row 1). \<exists>a c. x = Contribution a c)
       \<and> discussion_log s' = result_discussion_log r
       \<and> status s' = Some (ascii ''completed'') \<and> \<not> is_running s'"
    using q(1) rlog len ag co q(3,4,5) by (intro conjI)
  then show ?thesis by blast
qed

theorem start_discussion_two_rounds_of_three_witness:
  "ready demo_engine \<and> \<not> user_participation demo_engine \<and> max_rounds demo_engine = 2
   \<and> length (agents demo_engine) = 3
   \<and> (\<exists>r s' es1 es2. start_discussion (demo_env no_choice) demo_engine = (Complete r, s')
        \<and> result_discussion_log r = [Round 1 es1, Round 2 es2]
        \<and> length es1 = 3 \<and> length es2 = 3
        \<and> status s' = Some (ascii ''completed''))"
proof -
  have h: "ready demo_engine" "\<not> user_participation demo_engine" "max_rounds demo_engine = 2"
    "length (agents demo_engine) = 3"
    by (simp_all add: demo_engine_facts)
  from start_discussion_two_rounds_of_three [OF h, of "demo_env no_choice"]
  obtain r s' es1 es2 where
    "start_discussion (demo_env no_choice) demo_engine = (Complete r, s')"
    "result_discussion_log r = discussion_log demo_engine @ [Round 1 es1, Round 2 es2]"
    "length es1 = 3" "length es2 = 3" "status s' = Some (ascii ''completed'')"
    by blast
  then have "start_discussion (demo_env no_choice) demo_engine = (Complete r, s')
        \<and> result_discussion_log r = [Round 1 es1, Round 2 es2]
        \<and> length es1 = 3 \<and> length es2 = 3
        \<and> status s' = Some (ascii ''completed'')"
    by (simp add: demo_engine_facts)
  then have "\<exists>r s' es1 es2. start_discussion (demo_env no_choice) demo_engine = (Complete r, s')
        \<and> result_discussion_log r = [Round 1 es1, Round 2 es2]
        \<and> length es1 = 3 \<and> length es2 = 3
        \<and> status s' = Some (ascii ''completed'')"
    by blast
  with h show ?thesis by (intro conjI)
qed

text \<open>
  Claim C3. A failed call of the model never costs an entry, a round or the discussion.
  (1) With intervention mode off, \<open>start_discussion\<close> on an initialised engine with
  \<open>k\<close> participants returns the complete result whatever the outcomes of the calls
  are: it adds the rounds \<open>1 .. max_rounds\<close> to the log, each with exactly \<open>k\<close>
  entries, the \<open>i\<close>-th being the contribution of participant \<open>i\<close> for the outcome of
  its own call (call number \<open>j * k + i\<close> of the discussion in round \<open>j + 1\<close>); when
  that call fails with an error, the entry is the failed contribution carrying that
  error. (2) In any mode, a round in which the operator neither skips nor interrupts
  logs one contribution per participant, in order, and leaves the discussion running.
  (3) In any mode, a turn appends exactly the contribution for the outcome of its call.
\<close>

theorem participant_failure_keeps_round_and_discussion:
  assumes "ready s"
  shows "(\<not> user_participation s \<longrightarrow>
           (\<exists>res s'. start_discussion e s = (Complete res, s')
              \<and> result_discussion_log res = discussion_log s @
                   map (\<lambda>j. Round (1 + int j)
                          (map (\<lambda>i. Contribution (agents s ! i)
                                  (contribution_of (specialty (agent_obj s (agents s ! i)))
                                     (llm e (length (model_calls s) + j * length (agents s) + i))))
                             [0 ..< length (agents s)]))
                     [0 ..< nat (max_rounds s)]
              \<and> (\<forall>j i err. j < nat (max_rounds s) \<longrightarrow> i < length (agents s) \<longrightarrow>
                     llm e (length (model_calls s) + j * length (agents s) + i) = Failure err \<longrightarrow>
                     contributions (result_discussion_log res ! (length (discussion_log s) + j)) ! i
                       = Contribution (agents s ! i)
                           (Analysis_failure (Exception err) (specialty (agent_obj s (agents s ! i)))))))
       \<and> ((user_participation s \<longrightarrow> (\<forall>a \<in> set (agents s). lets_continue e r a)) \<longrightarrow>
           (\<exists>es s'. execute_discussion_round e r s = (Round r es, s')
              \<and> length es = length (agents s) \<and> map entry_agent es = agents s
              \<and> (\<forall>x \<in> set es. \<exists>a c. x = Contribution a c)
              \<and> is_running s' = is_running s))
       \<and> (\<forall>hist a es.
             fst (snd (agent_turn e r hist a es s))
               = es @ [Contribution a (contribution_of (specialty (agent_obj s a))
                                        (llm e (length (model_calls s))))]
           \<and> (\<forall>err. llm e (length (model_calls s)) = Failure err \<longrightarrow>
                 fst (snd (agent_turn e r hist a es s))
                   = es @ [Contribution a (Analysis_failure (Exception err) (specialty (agent_obj s a)))]))"
proof (intro conjI impI allI)
  assume quiet: "\<not> user_participation s"
  let ?k = "length (agents s)"
  let ?n = "length (model_calls s)"
  let ?row = "\<lambda>j. map (\<lambda>i. Contribution (agents s ! i)
                          (contribution_of (specialty (agent_obj s (agents s ! i)))
                             (llm e (?n + j * ?k + i))))
                     [0 ..< ?k]"
  from start_discussion_quiet [OF assms quiet, of e] obtain res s' where
    q: "start_discussion e s = (Complete res, s')"
       "result_discussion_log res = discussion_log s @ map (\<lambda>j. Round (1 + int j) (?row j)) [0 ..< nat (max_rounds s)]"
    by blast
  have fail: "\<forall>j i err. j < nat (max_rounds s) \<longrightarrow> i < ?k \<longrightarrow>
                     llm e (?n + j * ?k + i) = Failure err \<longrightarrow>
                     contributions (result_discussion_log res ! (length (discussion_log s) + j)) ! i
                       = Contribution (agents s ! i)
                           (Analysis_failure (Exception err) (specialty (agent_obj s (agents s ! i))))"
  proof (intro allI impI)
    fix j i err
    assume j: "j < nat (max_rounds s)" and i: "i < ?k"
      and f: "llm e (?n + j * ?k + i) = Failure err"
    have "result_discussion_log res ! (length (discussion_log s) + j) = Round (1 + int j) (?row j)"
      unfolding q(2) using j by (simp add: nth_append)
    then have "contributions (result_discussion_log res ! (length (discussion_log s) + j)) ! i = ?row j ! i"
      by simp
    also have "\<dots> = Contribution (agents s ! i)
                          (contribution_of (specialty (agent_obj s (agents s ! i)))
                             (llm e (?n + j * ?k + i)))"
      using i by simp
    finally show "contributions (result_discussion_log res ! (length (discussion_log s) + j)) ! i
                       = Contribution (agents s ! i)
                           (Analysis_failure (Exception err) (specialty (agent_obj s (agents s ! i))))"
      using f by simp
  qed
  from q fail show "\<exists>res s'. start_discussion e s = (Complete res, s')
              \<and> result_discussion_log res = discussion_log s @ map (\<lambda>j. Round (1 + int j) (?row j)) [0 ..< nat (max_rounds s)]
              \<and> (\<forall>j i err. j < nat (max_rounds s) \<longrightarrow> i < ?k \<longrightarrow>
                     llm e (?n + j * ?k + i) = Failure err \<longrightarrow>
                     contributions (result_discussion_log res ! (length (discussion_log s) + j)) ! i
                       = Contribution (agents s ! i)
                           (Analysis_failure (Exception err) (specialty (agent_obj s (agents s ! i)))))"
    by blast
next
  assume go: "user_participation s \<longrightarrow> (\<forall>a \<in> set (agents s). lets_continue e r a)"
  obtain rl s' where ex: "execute_discussion_round e r s = (rl, s')"
    by (cases "execute_discussion_round e r s") auto
  note a = execute_discussion_round_all [OF assms go ex]
  from a obtain es where es: "rl = Round r es" "map entry_agent es = agents s"
    "\<forall>x \<in> set es. \<exists>a c. x = Contribution a c" by blast
  have run: "is_running s' = is_running s" using a by blast
  have len: "length es = length (agents s)" using es(2) by (metis length_map)
  have "execute_discussion_round e r s = (Round r es, s')
              \<and> length es = length (agents s) \<and> map entry_agent es = agents s
              \<and> (\<forall>x \<in> set es. \<exists>a c. x = Contribution a c)
              \<and> is_running s' = is_running s"
    using ex es len run by simp
  then show "\<exists>es s'. execute_discussion_round e r s = (Round r es, s')
              \<and> length es = length (agents s) \<and> map entry_agent es = agents s
              \<and> (\<forall>x \<in> set es. \<exists>a c. x = Contribution a c)
              \<and> is_running s' = is_running s"
    by blast
next
  fix hist a es
  obtain stop es' s' where t: "agent_turn e r hist a es s = (stop, es', s')"
    by (cases "agent_turn e r hist a es s") auto
  have "es' = es @ [Contribution a (contribution_of (specialty (agent_obj s a))
                                        (llm e (length (model_calls s))))]"
    using agent_turn_ready [OF assms t] by (rule conjunct1)
  then show one: "fst (snd (agent_turn e r hist a es s))
               = es @ [Contribution a (contribution_of (specialty (agent_obj s a))
                                        (llm e (length (model_calls s))))]"
    using t by simp
  fix err
  assume "llm e (length (model_calls s)) = Failure err"
  with one show "fst (snd (agent_turn e r hist a es s))
                   = es @ [Contribution a (Analysis_failure (Exception err) (specialty (agent_obj s a)))]"
    by simp
qed

text \<open>
  In the worked discussion the second call, that of \<open>B\<close> in round 1, times out: the
  result is complete, and the second entry of round 1 is the failed contribution of \<open>B\<close>.
\<close>

theorem participant_failure_keeps_round_and_discussion_witness:
  "ready demo_engine \<and> \<not> user_participation demo_engine
   \<and> llm (demo_env no_choice) 1 = Failure (ascii ''timeout'')
   \<and> (\<exists>res s'. start_discussion (demo_env no_choice) demo_engine = (Complete res, s')
        \<and> length (result_discussion_log res) = 2
        \<and> length (contributions (result_discussion_log res ! 0)) = 3
        \<and> contributions (result_discussion_log res ! 0) ! 1
             = Contribution (ascii ''B'') (Analysis_failure (Exception (ascii ''timeout'')) (ascii ''B'')))"
proof -
  have h: "ready demo_engine" and q: "\<not> user_participation demo_engine"
    by (simp_all add: demo_engine_facts)
  have f: "llm (demo_env no_choice) 1 = Failure (ascii ''timeout'')"
    by (simp add: demo_env_def)
  have spB: "specialty (agent_obj demo_engine (ascii ''B'')) = ascii ''B''"
    by (simp add: demo_engine_eq new_agent_def ascii_def)
  note th = participant_failure_keeps_round_and_discussion [OF h, of "demo_env no_choice" 1,
              THEN conjunct1, rule_format, OF q]
  then obtain res s' where
    r: "start_discussion (demo_env no_choice) demo_engine = (Complete res, s')"
    and lg: "result_discussion_log res = discussion_log demo_engine @
                   map (\<lambda>j. Round (1 + int j)
                          (map (\<lambda>i. Contribution (agents demo_engine ! i)
                                  (contribution_of (specialty (agent_obj demo_engine (agents demo_engine ! i)))
                                     (llm (demo_env no_choice) (length (model_calls demo_engine) + j * length (agents demo_engine) + i))))
                             [0 ..< length (agents demo_engine)]))
                     [0 ..< nat (max_rounds demo_engine)]"
    and fl: "\<forall>j i err. j < nat (max_rounds demo_engine) \<longrightarrow> i < length (agents demo_engine) \<longrightarrow>
                     llm (demo_env no_choice) (length (model_calls demo_engine) + j * length (agents demo_engine) + i) = Failure err \<longrightarrow>
                     contributions (result_discussion_log res ! (length (discussion_log demo_engine) + j)) ! i
                       = Contribution (agents demo_engine ! i)
                           (Analysis_failure (Exception err) (specialty (agent_obj demo_engine (agents demo_engine ! i))))"
    by blast
  have len: "length (result_discussion_log res) = 2"
    unfolding lg by (simp add: demo_engine_facts)
  have l0: "length (contributions (result_discussion_log res ! 0)) = 3"
    unfolding lg by (simp add: demo_engine_facts upt_rec)
  have "contributions (result_discussion_log res ! (length (discussion_log demo_engine) + 0)) ! 1
          = Contribution (agents demo_engine ! 1)
              (Analysis_failure (Exception (ascii ''timeout'')) (specialty (agent_obj demo_engine (agents demo_engine ! 1))))"
    using fl [rule_format, of 0 1 "ascii ''timeout''"] f by (simp add: demo_engine_facts)
  then have e1: "contributions (result_discussion_log res ! 0) ! 1
             = Contribution (ascii ''B'') (Analysis_failure (Exception (ascii ''timeout'')) (ascii ''B''))"
    using spB by (simp add: demo_engine_facts)
  have "start_discussion (demo_env no_choice) demo_engine = (Complete res, s')
        \<and> length (result_discussion_log res) = 2
        \<and> length (contributions (result_discussion_log res ! 0)) = 3
        \<and> contributions (result_discussion_log res ! 0) ! 1
             = Contribution (ascii ''B'') (Analysis_failure (Exception (ascii ''timeout'')) (ascii ''B''))"
    using r len l0 e1 by (intro conjI)
  then have "\<exists>res s'. start_discussion (demo_env no_choice) demo_engine = (Complete res, s')
        \<and> length (result_discussion_log res) = 2
        \<and> length (contributions (result_discussion_log res ! 0)) = 3
        \<and> contributions (result_discussion_log res ! 0) ! 1
             = Contribution (ascii ''B'') (Analysis_failure (Exception (ascii ''timeout'')) (ascii ''B''))"
    by blast
  with h q f show ?thesis by (intro conjI)
qed

text \<open>
  Claim C4. In intervention mode, let the operator enter \<open>Skip_round\<close> at the prompt
  after participant \<open>a\<close> has contributed, the participants \<open>pre\<close> before it having
  spoken without a skip or an interrupt, and let \<open>post\<close> be the participants after it.
  Then the round log has one entry for each of \<open>pre\<close> and \<open>a\<close>, in order, hence
  \<open>j = length pre + 1\<close> entries, and none for any participant of \<open>post\<close>; and the calls for
  a contribution made in the round are those of \<open>pre\<close> and \<open>a\<close>: no participant of
  \<open>post\<close> is invoked. (A broadcast question put earlier in the round is answered by
  every agent, through \<open>respond_to_user_question\<close>; those answers are not turns of the
  round.)
\<close>

theorem skip_round_stops_the_round:
  assumes "ready s" and "user_participation s" and "distinct (agents s)"
    and "agents s = pre @ a # post"
    and "\<forall>x \<in> set pre. lets_continue e r x"
    and "user_choice e r a = Some Skip_round"
  shows "\<exists>es s' cs. execute_discussion_round e r s = (Round r es, s')
       \<and> length es = length pre + 1 \<and> map entry_agent es = pre @ [a]
       \<and> (\<forall>x \<in> set es. \<exists>b c. x = Contribution b c)
       \<and> (\<forall>b \<in> set post. b \<notin> entry_agent ` set es)
       \<and> model_calls s' = model_calls s @ cs \<and> invoked cs = pre @ [a]
       \<and> (\<forall>b \<in> set post. b \<notin> set (invoked cs))
       \<and> skip_remaining_agents s' \<and> is_running s' = is_running s"
proof -
  have na: "\<not> lets_continue e r a" using assms(6) by (simp add: lets_continue_def)
  obtain rl s' where ex: "execute_discussion_round e r s = (rl, s')"
    by (cases "execute_discussion_round e r s") auto
  note st = execute_discussion_round_stop [OF assms(1,2,4,5) na ex]
  from st obtain es where es: "rl = Round r es" "map entry_agent es = pre @ [a]"
    "\<forall>x \<in> set es. \<exists>a c. x = Contribution a c" by blast
  have f: "frame (pre @ [a]) s s'" using st by blast
  have sk: "is_running s' = is_running s \<and> skip_remaining_agents s'" using st assms(6) by blast
  from f obtain cs where cs: "model_calls s' = model_calls s @ cs" "invoked cs = pre @ [a]"
    by (auto simp add: frame_def)
  have len: "length es = length pre + 1" using es(2) by (metis length_map length_append_singleton Suc_eq_plus1)
  have d: "\<forall>b \<in> set post. b \<notin> set (pre @ [a])" using assms(3,4) by auto
  have img: "entry_agent ` set es = set (pre @ [a])" using es(2) by (metis set_map)
  have "execute_discussion_round e r s = (Round r es, s')
       \<and> length es = length pre + 1 \<and> map entry_agent es = pre @ [a]
       \<and> (\<forall>x \<in> set es. \<exists>b c. x = Contribution b c)
       \<and> (\<forall>b \<in> set post. b \<notin> entry_agent ` set es)
       \<and> model_calls s' = model_calls s @ cs \<and> invoked cs = pre @ [a]
       \<and> (\<forall>b \<in> set post. b \<notin> set (invoked cs))
       \<and> skip_remaining_agents s' \<and> is_running s' = is_running s"
    using ex es len d img cs sk by simp
  then show ?thesis by blast
qed

text \<open>
  In the worked discussion the operator skips after \<open>B\<close>, the second of three: round 1
  logs two entries, of \<open>A\<close> and \<open>B\<close>, and \<open>C\<close> is not invoked.
\<close>

theorem skip_round_stops_the_round_witness:
  "ready demo_engine_interactive \<and> user_participation demo_engine_interactive
   \<and> distinct (agents demo_engine_interactive)
   \<and> agents demo_engine_interactive = [ascii ''A''] @ ascii ''B'' # [ascii ''C'']
   \<and> lets_continue (demo_env (choice_at 1 (ascii ''B'') Skip_round)) 1 (ascii ''A'')
   \<and> user_choice (demo_env (choice_at 1 (ascii ''B'') Skip_round)) 1 (ascii ''B'') = Some Skip_round
   \<and> (\<exists>es s'. execute_discussion_round (demo_env (choice_at 1 (ascii ''B'') Skip_round)) 1
                  demo_engine_interactive = (Round 1 es, s')
        \<and> length es = 2 \<and> map entry_agent es = [ascii ''A'', ascii ''B'']
        \<and> invoked (model_calls s') = [ascii ''A'', ascii ''B''])"
proof -
  let ?e = "demo_env (choice_at 1 (ascii ''B'') Skip_round)"
  have h1: "ready demo_engine_interactive" and h2: "user_participation demo_engine_interactive"
    and h3: "distinct (agents demo_engine_interactive)"
    and h4: "agents demo_engine_interactive = [ascii ''A''] @ ascii ''B'' # [ascii ''C'']"
    by (simp_all add: demo_engine_interactive_facts ascii_def)
  have h5: "\<forall>x \<in> set [ascii ''A'']. lets_continue ?e 1 x"
    by (simp add: demo_choice_facts)
  have h6: "user_choice ?e 1 (ascii ''B'') = Some Skip_round"
    by (simp add: demo_choice_facts)
  from skip_round_stops_the_round [OF h1 h2 h3 h4 h5 h6]
  obtain es s' cs where
    "execute_discussion_round ?e 1 demo_engine_interactive = (Round 1 es, s')"
    "length es = length [ascii ''A''] + 1" "map entry_agent es = [ascii ''A''] @ [ascii ''B'']"
    "model_calls s' = model_calls demo_engine_interactive @ cs" "invoked cs = [ascii ''A''] @ [ascii ''B'']"
    by blast
  then have "execute_discussion_round ?e 1 demo_engine_interactive = (Round 1 es, s')
        \<and> length es = 2 \<and> map entry_agent es = [ascii ''A'', ascii ''B'']
        \<and> invoked (model_calls s') = [ascii ''A'', ascii ''B'']"
    by (simp add: demo_engine_interactive_facts)
  then have "\<exists>es s'. execute_discussion_round ?e 1 demo_engine_interactive = (Round 1 es, s')
        \<and> length es = 2 \<and> map entry_agent es = [ascii ''A'', ascii ''B'']
        \<and> invoked (model_calls s') = [ascii ''A'', ascii ''B'']"
    by - (rule exI [where x = es], rule exI [where x = s'], assumption)
  moreover have "lets_continue ?e 1 (ascii ''A'')" by (simp add: demo_choice_facts)
  ultimately show ?thesis using h1 h2 h3 h4 h6 by (intro conjI)
qed

text \<open>
  An interrupt after the second of three participants in round 1. Three participants,
  intervention mode on, at least one round; at the prompt after the first participant of
  round 1 the operator neither skips nor interrupts, at the prompt after the second they
  enter \<open>Interrupt\<close>; the interface reports no input after the round (as that of the
  command line never does). Then \<open>start_discussion\<close> returns the interrupted result, of
  status \<open>interrupted\<close>; the only scheduled round added to the log is round 1, with
  exactly two entries, of the first and second participant; and the calls for a
  contribution made in the whole discussion are those two: the third participant is not
  invoked, no further round is run, and no decision is asked for. The number the result
  carries as \<open>rounds_completed\<close> is \<open>current_round\<close>, which the loop of
  \<open>start_discussion\<close> has already advanced to 2 when it finds \<open>is_running\<close> cleared,
  unless only one round was planned.
\<close>

lemma start_discussion_interrupted_in_round_1:
  assumes "ready s" and "user_participation s"
    and "agents s = [a1, a2, a3]" and "distinct (agents s)" and "1 \<le> max_rounds s"
    and "lets_continue e 1 a1" and "user_choice e 1 a2 = Some Interrupt"
    and "no_pending_input e 1"
  shows "\<exists>es s' cs. start_discussion e s = (Interrupted_result (min 2 (max_rounds s)), s')
       \<and> result_status (fst (start_discussion e s)) = Some (ascii ''interrupted'')
       \<and> scheduled_rounds (discussion_log s') = scheduled_rounds (discussion_log s) @ [Round 1 es]
       \<and> last (discussion_log s') = Round 1 es
       \<and> length es = 2 \<and> map entry_agent es = [a1, a2]
       \<and> model_calls s' = model_calls s @ cs \<and> invoked cs = [a1, a2]
       \<and> a3 \<notin> set (invoked cs)
       \<and> \<not> is_running s'"
proof -
  let ?s0 = "s\<lparr>is_running := True, current_round := 0\<rparr>"
  let ?s1 = "?s0\<lparr>current_round := 1\<rparr>"
  let ?rest = "[2..max_rounds s]"
  have r1: "ready ?s1" using assms(1) by (simp add: ready_def)
  have up1: "user_participation ?s1" using assms(2) by simp
  have ag1: "agents ?s1 = [a1] @ a2 # [a3]" using assms(3) by simp
  have c1: "\<forall>x \<in> set [a1]. lets_continue e 1 x" using assms(6) by simp
  have na: "\<not> lets_continue e 1 a2" using assms(7) by (simp add: lets_continue_def)
  obtain rl s2 where ex: "execute_discussion_round e 1 ?s1 = (rl, s2)"
    by (cases "execute_discussion_round e 1 ?s1") auto
  note st = execute_discussion_round_stop [OF r1 up1 ag1 c1 na ex]
  from st obtain es where es: "rl = Round 1 es" "map entry_agent es = [a1] @ [a2]"
    by blast
  have f: "frame ([a1] @ [a2]) ?s1 s2" using st by blast
  have stopped: "\<not> is_running s2" using st assms(7) by blast
  from f obtain cs where cs: "model_calls s2 = model_calls ?s1 @ cs" "invoked cs = [a1] @ [a2]"
    by (auto simp add: frame_def)
  let ?s3 = "s2\<lparr>discussion_log := discussion_log s2 @ [rl]\<rparr>"
  have up3: "user_participation ?s3" "current_round ?s3 = 1"
    using f up1 by (simp_all add: frame_def)
  have nochk: "\<not> check_user_intervention e ?s3"
    using up3 assms(8) by (simp add: check_user_intervention_def no_pending_input_def split: option.splits)
  have run3: "\<not> is_running ?s3" using stopped by simp
  let ?s4 = "?s3\<lparr>current_round := (if ?rest = [] then current_round ?s3 else hd ?rest)\<rparr>"
  have loop: "discussion_rounds e [1..max_rounds ?s0] ?s0 = (None, ?s4)"
    using upto_1_Cons [OF assms(5)] ex nochk discussion_rounds_not_running [OF run3, of e ?rest]
    by (simp add: Let_def)
  have cur4: "current_round ?s4 = min 2 (max_rounds s)"
    using up3 assms(5) upto_2_hd [of "max_rounds s"] by (auto simp add: min_def)
  have sd: "start_discussion e s = (Interrupted_result (min 2 (max_rounds s)), ?s4\<lparr>is_running := False\<rparr>)"
    using loop run3 cur4 by (simp add: start_discussion_def Let_def create_interrupted_result_def)
  have sched: "scheduled_rounds (discussion_log ?s3) = scheduled_rounds (discussion_log s) @ [Round 1 es]"
    using f es(1) by (simp add: frame_def)
  have len: "length es = 2" using es(2) by (metis length_map length_Cons list.size(3) append_Cons append_Nil numeral_2_eq_2)
  have a3: "a3 \<notin> set (invoked cs)" using cs(2) assms(3,4) by auto
  have "start_discussion e s = (Interrupted_result (min 2 (max_rounds s)), ?s4\<lparr>is_running := False\<rparr>)
       \<and> result_status (fst (start_discussion e s)) = Some (ascii ''interrupted'')
       \<and> scheduled_rounds (discussion_log (?s4\<lparr>is_running := False\<rparr>)) = scheduled_rounds (discussion_log s) @ [Round 1 es]
       \<and> last (discussion_log (?s4\<lparr>is_running := False\<rparr>)) = Round 1 es
       \<and> length es = 2 \<and> map entry_agent es = [a1, a2]
       \<and> model_calls (?s4\<lparr>is_running := False\<rparr>) = model_calls s @ cs \<and> invoked cs = [a1, a2]
       \<and> a3 \<notin> set (invoked cs)
       \<and> \<not> is_running (?s4\<lparr>is_running := False\<rparr>)"
    using sd sched len es cs a3 by simp
  then show ?thesis
    by - (rule exI [where x = es], rule exI [where x = "?s4\<lparr>is_running := False\<rparr>"],
          rule exI [where x = cs], assumption)
qed

text \<open>
  Claim C2, on the code. The worked engine of three participants \<open>A\<close>, \<open>B\<close>, \<open>C\<close> with two
  rounds planned, in intervention mode; the operator presses return after \<open>A\<close> and
  enters \<open>Interrupt\<close> after \<open>B\<close> in round 1. The discussion stops as the claim says:
  \<open>C\<close> is not invoked, round 1 is the only round in the log and has the two entries of
  \<open>A\<close> and \<open>B\<close>, and the result has status \<open>interrupted\<close>. But the number of rounds
  completed that it carries is 2, where no round was completed and only round 1 was
  begun: \<open>start_discussion\<close> assigns \<open>current_round = round_num\<close> for round 2 before it
  tests \<open>is_running\<close> and leaves the loop, and \<open>_create_interrupted_result\<close> reports
  \<open>current_round\<close> as \<open>rounds_completed\<close>.
\<close>

theorem interrupted_result_counts_a_round_never_run:
  "\<exists>es s'. start_discussion (demo_env (choice_at 1 (ascii ''B'') Interrupt))
                  demo_engine_interactive = (Interrupted_result 2, s')
        \<and> result_status (Interrupted_result 2) = Some (ascii ''interrupted'')
        \<and> result_rounds_completed (Interrupted_result 2) = Some 2
        \<and> scheduled_rounds (discussion_log s') = [Round 1 es]
        \<and> map entry_agent es = [ascii ''A'', ascii ''B'']
        \<and> invoked (model_calls s') = [ascii ''A'', ascii ''B'']"
proof -
  let ?e = "demo_env (choice_at 1 (ascii ''B'') Interrupt)"
  have h1: "ready demo_engine_interactive" and h2: "user_participation demo_engine_interactive"
    and h3: "agents demo_engine_interactive = [ascii ''A'', ascii ''B'', ascii ''C'']"
    and h4: "distinct (agents demo_engine_interactive)"
    and h5: "1 \<le> max_rounds demo_engine_interactive"
    by (simp_all add: demo_engine_interactive_facts ascii_def)
  have h6: "lets_continue ?e 1 (ascii ''A'')"
    and h7: "user_choice ?e 1 (ascii ''B'') = Some Interrupt"
    and h8: "no_pending_input ?e 1"
    by (simp_all add: demo_choice_facts)
  from start_discussion_interrupted_in_round_1 [OF h1 h2 h3 h4 h5 h6 h7 h8]
  obtain es s' cs where
    r: "start_discussion ?e demo_engine_interactive
          = (Interrupted_result (min 2 (max_rounds demo_engine_interactive)), s')"
       "scheduled_rounds (discussion_log s') = scheduled_rounds (discussion_log demo_engine_interactive) @ [Round 1 es]"
       "map entry_agent es = [ascii ''A'', ascii ''B'']"
       "model_calls s' = model_calls demo_engine_interactive @ cs" "invoked cs = [ascii ''A'', ascii ''B'']"
    by (elim exE conjE) (rule that)
  have sch: "scheduled_rounds (discussion_log s') = [Round 1 es]"
    using r(2) by (simp add: demo_engine_interactive_facts scheduled_rounds_def)
  have "start_discussion ?e demo_engine_interactive = (Interrupted_result 2, s')
        \<and> result_status (Interrupted_result 2) = Some (ascii ''interrupted'')
        \<and> result_rounds_completed (Interrupted_result 2) = Some 2
        \<and> scheduled_rounds (discussion_log s') = [Round 1 es]
        \<and> map entry_agent es = [ascii ''A'', ascii ''B'']
        \<and> invoked (model_calls s') = [ascii ''A'', ascii ''B'']"
    using r sch by (simp add: demo_engine_interactive_facts)
  then show ?thesis
    by - (rule exI [where x = es], rule exI [where x = s'], assumption)
qed
subsection \<open>The claim about the digest\<close>

text \<open>
  What holds of the digest on every log: it is the sentinel line exactly when the log
  is empty, rounds before the last three have no influence on it, and no text in it is
  longer than 150 characters and the three dots.
\<close>

lemma digest_window_and_sentinel:
  "(get_current_discussion_context rs = [(System, first_round_notice)]) = (rs = [])
   \<and> (length recent = 3 \<longrightarrow>
         get_current_discussion_context (older @ recent) = get_current_discussion_context recent)
   \<and> length (shorten body) \<le> 153"
proof (intro conjI impI)
  show "(get_current_discussion_context rs = [(System, first_round_notice)]) = (rs = [])"
  proof (cases "rs = []")
    case True
    then show ?thesis by (simp add: get_current_discussion_context_empty)
  next
    case False
    then show ?thesis
      by (simp add: get_current_discussion_context_nonempty heading_is_not_notice)
  qed
next
  assume "length recent = 3"
  then show "get_current_discussion_context (older @ recent) = get_current_discussion_context recent"
    by (simp add: get_current_discussion_context_def)
next
  show "length (shorten body) \<le> 153"
    by (simp add: shorten_def length_ellipsis)
qed

text \<open>
  Claim C9, on the code. The digest, character by character (code points; 10 is the
  newline, 31532 and 36718 35752 35770 58 are the two halves of the round label, 48 to 57
  the digits).

  \<^item> The log holds round 1 alone, in which \<open>A\<close> said \<open>ok\<close>. The digest is the heading, the
    round label and the line of \<open>A\<close>; but the label carries the digit 2 (code point 50):
    round 1 is headed as round 2. \<open>_execute_discussion_round\<close> stores the round number
    itself, counted from 1, under \<open>round\<close>, and \<open>_get_current_discussion_context\<close> adds
    one to it.
  \<^item> On \<open>demo_log\<close> (round 1, round 2 whose only contribution failed, a broadcast round,
    round 3): round 1 is outside the window of three, round 2 is headed 3 and has no
    line, the broadcast round has its own label and the reply of \<open>B\<close>, and round 3 is
    headed 4.
  \<^item> A text of 151 characters is cut to its first 150, followed by three dots.
  \<^item> The empty log gives the sentinel line alone.
\<close>

theorem digest_heads_round_one_as_round_two:
  "get_current_discussion_context
     [Round 1 [Contribution (ascii ''A'') (Analysis_success (ascii ''A'') (ascii ''ok'') 2)]]
     = [(System, [20043, 21069, 30340, 35752, 35770, 25688, 35201, 58, 10,
                  31532, 50, 36718, 35752, 35770, 58, 10,
                  32, 32, 65, 58, 32, 111, 107])]
   \<and> get_current_discussion_context demo_log
     = [(System, [20043, 21069, 30340, 35752, 35770, 25688, 35201, 58, 10,
                  31532, 51, 36718, 35752, 35770, 58, 10,
                  24191, 25773, 25552, 38382, 36718, 27425, 58, 10,
                  32, 32, 66, 58, 32, 121, 101, 115, 10,
                  31532, 52, 36718, 35752, 35770, 58, 10,
                  32, 32, 67, 58, 32, 111, 107])]
   \<and> get_current_discussion_context
        [Round 1 [Contribution (ascii ''A'') (Analysis_success (ascii ''A'') (replicate 151 97) 151)]]
     = [(System, [20043, 21069, 30340, 35752, 35770, 25688, 35201, 58, 10,
                  31532, 50, 36718, 35752, 35770, 58, 10,
                  32, 32, 65, 58, 32] @ replicate 150 97 @ [46, 46, 46])]
   \<and> get_current_discussion_context []
     = [(System, [36825, 26159, 31532, 19968, 36718, 35752, 35770, 65292, 26242, 26080, 21382,
                  21490, 35760, 24405])]"
proof -
  have digits: "str_int 2 = [50]" "str_int 3 = [51]" "str_int 4 = [52]"
    by (simp_all add: str_int_def str_nat.simps)
  have cut: "take 150 (replicate 151 (97::nat)) = replicate 150 97" by simp
  show ?thesis
    by (simp add: get_current_discussion_context_def demo_log_def contribution_line_def
          shorten_def digits cut summary_heading_def round_label_open_def round_label_close_def
          broadcast_round_label_def first_round_notice_def newline_def indent_def
          colon_space_def ellipsis_def ascii_def)
qed
subsection \<open>Where the code departs from the claims\<close>

text \<open>
  Claim C8, on the code. In the worked discussion with intervention mode off, let the six
  calls of the participants answer and the call of the decision agent fail with
  \<open>timeout\<close>. \<open>make_final_decision\<close> catches the failure and returns a dictionary with
  \<open>success\<close> false, so the handler of \<open>_generate_final_summary\<close> that would fall back to
  the backup summary is never reached: the clinical summary of the result is that
  failed decision carrying the error, and not a summary text.
\<close>

theorem failed_decision_call_is_returned_as_the_summary:
  "\<exists>res s'. start_discussion decision_down_env demo_engine = (Complete res, s')
     \<and> result_clinical_summary res
         = Discussion_summary (Decision_failure (Exception (ascii ''timeout'')))"
proof -
  have h: "ready demo_engine" "\<not> user_participation demo_engine"
    "decision_agent demo_engine = Some (new_agent (ascii ''decision'') (ascii ''decide''))"
    by (simp_all add: demo_engine_facts)
  have f: "llm decision_down_env (length (model_calls demo_engine)
             + nat (max_rounds demo_engine) * length (agents demo_engine)) = Failure (ascii ''timeout'')"
    by (simp add: demo_engine_facts decision_down_env_def)
  from start_discussion_quiet_failed_decision [OF h f] show ?thesis .
qed

text \<open>
  Claim C6, on the code. The worked engine with one round planned, in intervention mode;
  the operator presses return after \<open>A\<close> and enters \<open>Skip_round\<close> after \<open>B\<close>. The skip
  is handled: the round is cut to the entries of \<open>A\<close> and \<open>B\<close>. Yet the complete result
  lists no intervention. In \<open>_handle_user_intervention\<close> the branches for skipping and
  for interrupting return before the record is appended, which the branch for added
  information reaches: on the same engine a handled \<open>Interrupt\<close> leaves the list of
  interventions empty, while a handled \<open>Add_information\<close> is listed.
\<close>

theorem handled_skip_is_missing_from_the_result:
  "(\<exists>res s' es. start_discussion (demo_env (choice_at 1 (ascii ''B'') Skip_round))
                  demo_engine_one_round = (Complete res, s')
      \<and> result_discussion_log res = [Round 1 es]
      \<and> map entry_agent es = [ascii ''A'', ascii ''B'']
      \<and> result_user_interventions res = [])
   \<and> handle_user_intervention (demo_env no_choice) Skip_round demo_engine_one_round
        = (True, demo_engine_one_round\<lparr>skip_remaining_agents := True\<rparr>)
   \<and> user_interventions
        (snd (handle_user_intervention (demo_env no_choice) Interrupt demo_engine_one_round)) = []
   \<and> user_interventions
        (snd (handle_user_intervention (demo_env no_choice) (Add_information (ascii ''K+ 6.1''))
                demo_engine_one_round)) = [Add_information (ascii ''K+ 6.1'')]"
proof -
  let ?e = "demo_env (choice_at 1 (ascii ''B'') Skip_round)"
  have h5: "\<forall>x \<in> set [ascii ''A'']. system_head (agent_obj demo_engine_one_round x)
               = Some ((\<lambda>x. ascii ''specialist'') x)"
    by (simp add: demo_engine_one_round_facts)
  have h6: "\<forall>x \<in> set [ascii ''A'']. user_choice ?e 1 x = None"
    by (simp add: demo_env_def choice_at_def ascii_def)
  have h7: "user_choice ?e 1 (ascii ''B'') = Some Skip_round"
    by (simp add: demo_choice_facts)
  have h8: "no_pending_input ?e 1" by (simp add: demo_choice_facts)
  from start_discussion_one_round_skipped
         [OF demo_engine_one_round_facts(1) demo_engine_one_round_facts(7)
             demo_engine_one_round_facts(2) demo_engine_one_round_facts(3)
             demo_engine_one_round_facts(4) h5 h6 h7 h8]
  have run: "\<exists>res s' es. start_discussion ?e demo_engine_one_round = (Complete res, s')
      \<and> result_discussion_log res = [Round 1 es]
      \<and> map entry_agent es = [ascii ''A'', ascii ''B'']
      \<and> result_user_interventions res = []"
    by (simp add: demo_engine_one_round_facts(5,6))
  have skip: "handle_user_intervention (demo_env no_choice) Skip_round demo_engine_one_round
        = (True, demo_engine_one_round\<lparr>skip_remaining_agents := True\<rparr>)"
    by simp
  have intr: "user_interventions
        (snd (handle_user_intervention (demo_env no_choice) Interrupt demo_engine_one_round)) = []"
    by (simp add: demo_engine_one_round_facts)
  have add: "user_interventions
        (snd (handle_user_intervention (demo_env no_choice) (Add_information (ascii ''K+ 6.1''))
                demo_engine_one_round)) = [Add_information (ascii ''K+ 6.1'')]"
    by (simp add: record_intervention_def update_all_agents_def update_medical_context_def
          demo_engine_one_round_facts)
  from run skip intr add show ?thesis by (intro conjI)
qed

text \<open>
  Claim C7, on the code. The worked engine in intervention mode, every call of the model
  answering; at the prompt after \<open>C\<close>, the last participant of round 1, the operator adds
  the information \<open>K+ 6.1\<close>, and otherwise presses return. The information is handled
  between round 1 and round 2 and the complete result lists it. The seven calls of the
  model are those of \<open>A\<close>, \<open>B\<close>, \<open>C\<close> in round 1, of \<open>A\<close>, \<open>B\<close>, \<open>C\<close> in round 2 and of
  the decision agent; not one of the requests sent, with all its messages, holds the
  information, those of round 2 included. \<open>update_context\<close> does append a message with
  the information to the messages of every agent, but at the agent's next turn
  \<open>set_shared_history\<close> replaces all messages after the system message by the digest,
  and the prompt is built from the medical record and the digest alone.
\<close>

theorem added_information_reaches_no_prompt:
  "(\<exists>res s'. start_discussion (calm_env (choice_at 1 (ascii ''C'') (Add_information (ascii ''K+ 6.1''))))
                 demo_engine_interactive = (Complete res, s')
      \<and> result_user_interventions res = [Add_information (ascii ''K+ 6.1'')]
      \<and> map fst (model_calls s')
          = [ascii ''A'', ascii ''B'', ascii ''C'', ascii ''A'', ascii ''B'', ascii ''C'',
             ascii ''DecisionMaker'']
      \<and> filter (\<lambda>c. mentions (snd c) (ascii ''K+ 6.1'')) (model_calls s') = [])
   \<and> list_ex (\<lambda>m. contains (snd m) (ascii ''K+ 6.1''))
        (messages (update_context (ascii ''K+ 6.1'') (new_agent (ascii ''A'') (ascii ''specialist''))))
   \<and> \<not> list_ex (\<lambda>m. contains (snd m) (ascii ''K+ 6.1''))
        (messages (set_shared_history (get_current_discussion_context [])
           (update_context (ascii ''K+ 6.1'') (new_agent (ascii ''A'') (ascii ''specialist'')))))"
proof -
  let ?info = "ascii ''K+ 6.1''"
  let ?e = "calm_env (choice_at 1 (ascii ''C'') (Add_information ?info))"
  let ?s = "demo_engine_interactive"
  let ?ctx = "\<lparr>medical_record = ascii ''case'', question = ascii ''what now'',
         selected_agents = [ascii ''A'', ascii ''B'', ascii ''C''], case_user_id = ascii ''u1''\<rparr>"
  let ?d = "new_agent (ascii ''decision'') (ascii ''decide'')"
  let ?row = "\<lambda>r k. Round r (map (\<lambda>i. Contribution (agents ?s ! i)
                    (contribution_of (specialty (agent_obj ?s (agents ?s ! i)))
                       (llm ?e (length (model_calls ?s) + k + i)))) [0 ..< length (agents ?s)])"
  let ?row1 = "Round 1 (map (\<lambda>i. Contribution (agents ?s ! i)
                    (contribution_of (specialty (agent_obj ?s (agents ?s ! i)))
                       (llm ?e (length (model_calls ?s) + i)))) [0 ..< length (agents ?s)])"
  let ?row2 = "Round 2 (map (\<lambda>i. Contribution (agents ?s ! i)
                    (contribution_of (specialty (agent_obj ?s (agents ?s ! i)))
                       (llm ?e (length (model_calls ?s) + length (agents ?s) + i)))) [0 ..< length (agents ?s)])"
  let ?req = "\<lambda>lg a. (a, Chat ((System, ascii ''specialist'') # get_current_discussion_context lg @
               [(User, analysis_message (specialty (agent_obj ?s a)) (medical_record ?ctx)
                         (format_discussion_history_for_prompt (get_current_discussion_context lg))
                         (newline @ analysis_prompt_open @ a @ analysis_prompt_close))]))"
  let ?dreq = "snd (make_final_decision (llm ?e (length (model_calls ?s) + 2 * length (agents ?s)))
                      (current_date ?e) (discussion_log ?s @ [?row1, ?row2]) (Some ?ctx) ?d)"
  have ag: "agents ?s = [ascii ''A'', ascii ''B'', ascii ''C'']"
    by (rule demo_engine_interactive_facts(4))
  have ch1: "\<forall>a \<in> set (agents ?s). user_choice ?e 1 a = None
                           \<or> (\<exists>i. user_choice ?e 1 a = Some (Add_information i))"
    by (simp add: calm_env_facts choice_at_def)
  have ch2: "\<forall>a \<in> set (agents ?s). user_choice ?e 2 a = None
                           \<or> (\<exists>i. user_choice ?e 2 a = Some (Add_information i))"
    by (simp add: calm_env_facts choice_at_def)
  from start_discussion_two_calm_rounds
         [OF demo_engine_interactive_facts(1) demo_engine_interactive_agents(1)
             demo_engine_interactive_facts(3) demo_engine_interactive_agents(3) ch1 ch2
             calm_env_facts(4) calm_env_facts(4) demo_engine_interactive_agents(2) refl refl]
  obtain res s' where run: "start_discussion ?e ?s = (Complete res, s')"
    and ivs: "result_user_interventions res = user_interventions ?s @
            (if user_participation ?s
             then List.map_filter (user_choice ?e 1) (agents ?s) @ List.map_filter (user_choice ?e 2) (agents ?s)
             else [])"
    and calls: "model_calls s' = model_calls ?s
           @ map (?req (discussion_log ?s)) (agents ?s)
           @ map (?req (discussion_log ?s @ [?row1])) (agents ?s)
           @ [(ascii ''DecisionMaker'', ?dreq)]"
    by (elim exE conjE) (rule that)
  have iv: "result_user_interventions res = [Add_information ?info]"
    unfolding ivs
    by (simp add: demo_engine_interactive_facts calm_env_facts choice_at_def List.map_filter_def
          ascii_def)
  have names: "map fst (model_calls s')
          = [ascii ''A'', ascii ''B'', ascii ''C'', ascii ''A'', ascii ''B'', ascii ''C'',
             ascii ''DecisionMaker'']"
    unfolding calls by (simp add: demo_engine_interactive_facts o_def)
  have K: "?info = 75 # [43, 32, 54, 46, 49]" by (simp add: ascii_def)
  have agK: "\<forall>a \<in> set (agents ?s). 75 \<notin> set a" by (simp add: ag ascii_def)
  have rowK: "\<forall>x \<in> set (contributions ?row1). 75 \<notin> set (entry_agent x)
                \<and> 75 \<notin> set (entry_analysis x) \<and> 75 \<notin> set (entry_response x)"
    and rowK2: "\<forall>x \<in> set (contributions ?row2). 75 \<notin> set (entry_agent x)
                \<and> 75 \<notin> set (entry_analysis x) \<and> 75 \<notin> set (entry_response x)"
    using K_not_in_calm_row [OF agK] by (simp_all add: calm_env_facts)
  have d0: "\<forall>m \<in> set (get_current_discussion_context (discussion_log ?s)). 75 \<notin> set (snd m)"
    by (rule K_not_in_digest) (simp add: demo_engine_interactive_facts)
  have d1: "\<forall>m \<in> set (get_current_discussion_context (discussion_log ?s @ [?row1])). 75 \<notin> set (snd m)"
    by (rule K_not_in_digest) (simp add: demo_engine_interactive_facts rowK del: contributions.simps)
  have req: "\<not> mentions (snd (?req lg a)) ?info"
    if "a \<in> set (agents ?s)" and "\<forall>m \<in> set (get_current_discussion_context lg). 75 \<notin> set (snd m)"
    for lg a
  proof -
    have a: "75 \<notin> set a" using agK that(1) by blast
    have sp: "75 \<notin> set (specialty (agent_obj ?s a))"
      using demo_engine_interactive_agents(4) that(1) a by simp
    have c: "75 \<notin> set (ascii ''specialist'')" and m: "75 \<notin> set (medical_record ?ctx)"
      by (simp_all add: ascii_def)
    have "\<not> mentions (snd (?req lg a)) (75 # [43, 32, 54, 46, 49])"
      unfolding snd_conv by (rule K_not_in_request [OF c that(2) sp m a])
    then show ?thesis by (simp only: K [symmetric] not_False_eq_True)
  qed
  have "\<not> mentions ?dreq (75 # [43, 32, 54, 46, 49])"
  proof (rule K_not_in_decision_request)
    show "75 \<notin> set (system_instruction ?d)" by (simp add: new_agent_def ascii_def)
    show "75 \<notin> set (current_date ?e)" by (simp add: calm_env_facts ascii_def)
    show "75 \<notin> set (medical_record ?ctx)" "75 \<notin> set (question ?ctx)" by (simp_all add: ascii_def)
    show "\<forall>r \<in> set (discussion_log ?s @ [?row1, ?row2]). \<forall>x \<in> set (contributions r).
            75 \<notin> set (entry_agent x) \<and> 75 \<notin> set (entry_analysis x) \<and> 75 \<notin> set (entry_response x)"
      using rowK rowK2 by (simp add: demo_engine_interactive_facts del: contributions.simps)
  qed
  then have dreq: "\<not> mentions ?dreq ?info" by (simp only: K [symmetric] not_False_eq_True)
  have "\<forall>c \<in> set (model_calls s'). \<not> mentions (snd c) ?info"
    unfolding calls using req [OF _ d0] req [OF _ d1] dreq
    by (auto simp add: demo_engine_interactive_facts simp del: mentions.simps)
  then have none: "filter (\<lambda>c. mentions (snd c) ?info) (model_calls s') = []"
    by (simp add: filter_empty_conv)
  from run iv names none
  have "start_discussion ?e ?s = (Complete res, s')
      \<and> result_user_interventions res = [Add_information ?info]
      \<and> map fst (model_calls s')
          = [ascii ''A'', ascii ''B'', ascii ''C'', ascii ''A'', ascii ''B'', ascii ''C'',
             ascii ''DecisionMaker'']
      \<and> filter (\<lambda>c. mentions (snd c) ?info) (model_calls s') = []"
    by (intro conjI)
  then have "\<exists>res s'. start_discussion ?e ?s = (Complete res, s')
      \<and> result_user_interventions res = [Add_information ?info]
      \<and> map fst (model_calls s')
          = [ascii ''A'', ascii ''B'', ascii ''C'', ascii ''A'', ascii ''B'', ascii ''C'',
             ascii ''DecisionMaker'']
      \<and> filter (\<lambda>c. mentions (snd c) ?info) (model_calls s') = []"
    by - (rule exI [where x = res], rule exI [where x = s'], assumption)
  then show ?thesis
    using update_context_mentions [of ?info "new_agent (ascii ''A'') (ascii ''specialist'')"]
      set_shared_history_forgets
    by (intro conjI)
qed

end
